theory Spec2Isabelle
  imports Main "HOL-Library.Sublist"
begin

section \<open>rotate\_keys.py: rotation of an IAM access key and its propagation to GitHub secrets\<close>

text \<open>
  The script is one linear workflow around calls to three outside parties: AWS (STS and
  IAM, through boto3), the GitHub REST API (through requests) and the file named by
  \<^verbatim>\<open>GITHUB_OUTPUT\<close>. The model makes every effect explicit:
  \<^item> each function takes the trace of events so far and returns the extended trace;
  \<^item> \<^verbatim>\<open>sys.exit\<close> and every raised exception are values (\<open>Inl\<close>) that end the run;
  \<^item> the outside parties are a \<open>world\<close>: for each operation, the answer to its
    \<open>n\<close>-th call. A run issues a determined sequence of requests, so answers indexed by
    call number cover every behaviour of a provider whose answers depend on the requests.
\<close>

subsection \<open>Python strings\<close>

text \<open>\<^verbatim>\<open>s.split(c)\<close> for a one-character separator: never the empty list.\<close>

fun split_on :: "char \<Rightarrow> string \<Rightarrow> string list" where
  "split_on c [] = [[]]"
| "split_on c (x # xs) =
     (if x = c then [] # split_on c xs
      else (case split_on c xs of [] \<Rightarrow> [[x]] | p # ps \<Rightarrow> (x # p) # ps))"

text \<open>
  A character of the model is a code point below 256, so a string is a Python
  \<^verbatim>\<open>str\<close> of such code points. \<^verbatim>\<open>str.isspace\<close> holds for exactly twelve of them:
  U+0009 to U+000D, U+001C to U+0020, U+0085 and U+00A0. These are the characters
  \<^verbatim>\<open>s.strip()\<close> removes from both ends.
\<close>

definition isspace :: "char \<Rightarrow> bool" where
  "isspace c = (c \<in> set [CHR 0x09, CHR 0x0A, CHR 0x0B, CHR 0x0C, CHR 0x0D,
                          CHR 0x1C, CHR 0x1D, CHR 0x1E, CHR 0x1F, CHR 0x20,
                          CHR 0x85, CHR 0xA0])"

definition strip :: "string \<Rightarrow> string" where
  "strip s = rev (dropWhile isspace (rev (dropWhile isspace s)))"

text \<open>\<^verbatim>\<open>str(n)\<close> for a non-negative integer, as an f-string prints it.\<close>

fun str_nat :: "nat \<Rightarrow> string" where
  "str_nat n =
     (if n < 10 then [''0123456789'' ! n]
      else str_nat (n div 10) @ [''0123456789'' ! (n mod 10)])"

declare str_nat.simps [simp del]

subsection \<open>Exceptions, exits, events\<close>

datatype exn =
    KeyError string
  | IndexError
  | Exception string
  | ClientError string
  | RequestException string
  | ValueError string
  | OSError string

datatype abort = SystemExit nat | Raise exn

text \<open>The JSON body of the upload request (\<^verbatim>\<open>requests.put(..., json={...})\<close>).\<close>

record put_json =
  encrypted_value :: string
  key_id :: string
  visibility :: string

text \<open>
  What the process does to the outside, in order. The second component of both HTTP
  events is the value of the \<^verbatim>\<open>Authorization\<close> header. \<open>SealedBoxEncrypt\<close> records a
  sealing (it draws fresh randomness) with the public key text it was given.
\<close>

datatype event =
    is_StsGetCallerIdentity: StsGetCallerIdentity
  | is_IamListAccessKeys: IamListAccessKeys string
  | is_IamCreateAccessKey: IamCreateAccessKey string
  | is_IamDeleteAccessKey: IamDeleteAccessKey string string
  | is_HttpGet: HttpGet string string
  | is_HttpPut: HttpPut string put_json string
  | is_SealedBoxEncrypt: SealedBoxEncrypt string
  | is_OpenAppend: OpenAppend string
  | is_FileWrite: FileWrite string string
  | is_Print: Print string

type_synonym 'a result = "(abort + 'a) \<times> event list"

text \<open>The number of earlier calls of one kind: the index of the next answer.\<close>

definition calls :: "(event \<Rightarrow> bool) \<Rightarrow> event list \<Rightarrow> nat" where
  "calls p tr = length (filter p tr)"

text \<open>The status the operating system sees: an uncaught exception ends Python with 1.\<close>

fun exit_status :: "abort + 'a \<Rightarrow> nat" where
  "exit_status (Inl (SystemExit n)) = n"
| "exit_status (Inl (Raise e)) = 1"
| "exit_status (Inr v) = 0"

text \<open>Sequencing: an exit or an exception of the first step skips the rest.\<close>

definition and_then :: "'a result \<Rightarrow> ('a \<Rightarrow> event list \<Rightarrow> 'b result) \<Rightarrow> 'b result" where
  "and_then m f = (case m of (Inl a, tr) \<Rightarrow> (Inl a, tr) | (Inr x, tr) \<Rightarrow> f x tr)"

subsection \<open>The world\<close>

text \<open>
  A \<^verbatim>\<open>requests\<close> response: the status, the body text and what \<^verbatim>\<open>.json()\<close> makes
  of the body (\<open>None\<close> when it raises; the fields read by the script are strings).
\<close>

record response =
  status_code :: nat
  body_text :: string
  json :: "(string \<times> string) list option"

text \<open>
  Each provider operation answers its \<open>n\<close>-th call with a value or with the message
  of the exception it raises (\<open>Inl\<close>); the call site gives the exception its class, so
  a \<^verbatim>\<open>KeyError\<close> or an \<^verbatim>\<open>IndexError\<close> is always the script's own.
  \<open>list_access_keys\<close> answers with the \<^verbatim>\<open>AccessKeyId\<close> of each entry of
  \<^verbatim>\<open>AccessKeyMetadata\<close>, \<open>create_access_key\<close> with the pair
  (\<^verbatim>\<open>AccessKeyId\<close>, \<^verbatim>\<open>SecretAccessKey\<close>), \<open>delete_access_key\<close> with the
  \<^verbatim>\<open>HTTPStatusCode\<close> of its response metadata. The PyNaCl and base64 functions are
  parameters: \<open>nacl_PublicKey\<close> decodes a base64 public key or raises,
  \<open>nacl_seal\<close> is \<^verbatim>\<open>SealedBox(pk).encrypt\<close> with the index of the sealing as its
  source of randomness.
\<close>

record world =
  environ :: "string \<rightharpoonup> string"
  get_caller_identity :: "nat \<Rightarrow> string + string"
  list_access_keys :: "nat \<Rightarrow> string + string list"
  create_access_key :: "nat \<Rightarrow> string + string \<times> string"
  delete_access_key :: "nat \<Rightarrow> string + nat"
  requests_get :: "nat \<Rightarrow> string + response"
  requests_put :: "nat \<Rightarrow> string + response"
  file_open :: "nat \<Rightarrow> string option"
  nacl_PublicKey :: "string \<Rightarrow> string + string"
  nacl_seal :: "nat \<Rightarrow> string \<Rightarrow> string \<Rightarrow> string"
  b64encode :: "string \<Rightarrow> string"

text \<open>\<^verbatim>\<open>os.environ[k]\<close>, \<^verbatim>\<open>os.environ.get(k, d)\<close>, \<^verbatim>\<open>d[k]\<close> and \<^verbatim>\<open>xs[i]\<close>.\<close>

definition environ_getitem :: "world \<Rightarrow> string \<Rightarrow> exn + string" where
  "environ_getitem w k = (case environ w k of None \<Rightarrow> Inl (KeyError k) | Some v \<Rightarrow> Inr v)"

definition environ_get :: "world \<Rightarrow> string \<Rightarrow> string \<Rightarrow> string" where
  "environ_get w k d = (case environ w k of None \<Rightarrow> d | Some v \<Rightarrow> v)"

definition dict_getitem :: "(string \<times> string) list \<Rightarrow> string \<Rightarrow> exn + string" where
  "dict_getitem d k = (case map_of d k of None \<Rightarrow> Inl (KeyError k) | Some v \<Rightarrow> Inr v)"

definition list_getitem :: "'a list \<Rightarrow> nat \<Rightarrow> exn + 'a" where
  "list_getitem xs i = (if i < length xs then Inr (xs ! i) else Inl IndexError)"

subsection \<open>Module level (lines 8--18)\<close>

definition access_key_name :: "world \<Rightarrow> string" where
  "access_key_name w = environ_get w ''GITHUB_ACCESS_KEY_NAME'' ''access_key_id''"

definition secret_key_name :: "world \<Rightarrow> string" where
  "secret_key_name w = environ_get w ''GITHUB_SECRET_KEY_NAME'' ''secret_key_id''"

text \<open>
  \<^verbatim>\<open>boto3.client(...)\<close> reads two required variables (a missing one is a
  \<^verbatim>\<open>KeyError\<close>) and contacts nobody.
\<close>

definition boto3_client :: "world \<Rightarrow> event list \<Rightarrow> unit result" where
  "boto3_client w tr =
     (case environ_getitem w ''AWS_ACCESS_KEY_ID'' of
        Inl e \<Rightarrow> (Inl (Raise e), tr)
      | Inr _ \<Rightarrow>
     (case environ_getitem w ''AWS_SECRET_ACCESS_KEY'' of
        Inl e \<Rightarrow> (Inl (Raise e), tr)
      | Inr _ \<Rightarrow> (Inr (), tr)))"

subsection \<open>who\_am\_i (lines 73--85)\<close>

definition who_am_i :: "world \<Rightarrow> event list \<Rightarrow> string result" where
  "who_am_i w tr =
     and_then (boto3_client w tr) (\<lambda>sts tr.
       (case get_caller_identity w (calls is_StsGetCallerIdentity tr) of
          Inl m \<Rightarrow> (Inl (Raise (ClientError m)), tr @ [StsGetCallerIdentity])
        | Inr arn \<Rightarrow> (Inr (last (split_on CHR ''/'' arn)), tr @ [StsGetCallerIdentity])))"

subsection \<open>create\_new\_keys (lines 88--107)\<close>

definition iam_list_access_keys :: "world \<Rightarrow> string \<Rightarrow> event list \<Rightarrow> string list result" where
  "iam_list_access_keys w iam_username tr =
     (case list_access_keys w (calls is_IamListAccessKeys tr) of
        Inl m \<Rightarrow> (Inl (Raise (ClientError m)), tr @ [IamListAccessKeys iam_username])
      | Inr ks \<Rightarrow> (Inr ks, tr @ [IamListAccessKeys iam_username]))"

definition iam_create_access_key :: "world \<Rightarrow> string \<Rightarrow> event list \<Rightarrow> (string \<times> string) result" where
  "iam_create_access_key w iam_username tr =
     (case create_access_key w (calls is_IamCreateAccessKey tr) of
        Inl m \<Rightarrow> (Inl (Raise (ClientError m)), tr @ [IamCreateAccessKey iam_username])
      | Inr kp \<Rightarrow> (Inr kp, tr @ [IamCreateAccessKey iam_username]))"

definition create_new_keys :: "world \<Rightarrow> string \<Rightarrow> event list \<Rightarrow> (string \<times> string) result" where
  "create_new_keys w iam_username tr =
     and_then (iam_create_access_key w iam_username tr) (\<lambda>(new_access_key, new_secret_key) tr.
     and_then (iam_list_access_keys w iam_username tr) (\<lambda>access_keys tr.
       if new_access_key \<notin> set access_keys
       then (Inl (SystemExit 1), tr @ [Print ''new keys failed to generate.''])
       else (Inr (new_access_key, new_secret_key),
             tr @ [Print ''new keys generated, proceeding''])))"

subsection \<open>delete\_old\_keys (lines 110--119)\<close>

definition delete_old_keys :: "world \<Rightarrow> string \<Rightarrow> string \<Rightarrow> event list \<Rightarrow> unit result" where
  "delete_old_keys w iam_username current_access_id tr =
     (case delete_access_key w (calls is_IamDeleteAccessKey tr) of
        Inl m \<Rightarrow> (Inl (Raise (ClientError m)),
                  tr @ [IamDeleteAccessKey iam_username current_access_id])
      | Inr http_status \<Rightarrow>
          if http_status \<noteq> 200
          then (Inl (SystemExit 1),
                tr @ [IamDeleteAccessKey iam_username current_access_id,
                      Print ''deletion of original key failed''])
          else (Inr (), tr @ [IamDeleteAccessKey iam_username current_access_id]))"

subsection \<open>encrypt (lines 123--128)\<close>

definition encrypt :: "world \<Rightarrow> string \<Rightarrow> string \<Rightarrow> event list \<Rightarrow> string result" where
  "encrypt w public_key secret_value tr =
     (case nacl_PublicKey w public_key of
        Inl m \<Rightarrow> (Inl (Raise (ValueError m)), tr)
      | Inr pk \<Rightarrow>
          (Inr (b64encode w (nacl_seal w (calls is_SealedBoxEncrypt tr) pk secret_value)),
           tr @ [SealedBoxEncrypt public_key]))"

subsection \<open>get\_pub\_key (lines 131--161)\<close>

text \<open>
  \<^verbatim>\<open>if environment_name := os.environ.get('GITHUB_ENVIRONMENT')\<close>: the branch is taken
  when the variable is set and not empty.
\<close>

definition github_environment :: "world \<Rightarrow> string option" where
  "github_environment w =
     (case environ w ''GITHUB_ENVIRONMENT'' of
        None \<Rightarrow> None
      | Some environment_name \<Rightarrow> if environment_name = [] then None else Some environment_name)"

definition endpoint_path :: "string \<Rightarrow> string" where
  "endpoint_path owner_repo = (if CHR ''/'' \<in> set owner_repo then ''repos'' else ''orgs'')"

text \<open>Lines 135--138: the address of the public-key request.\<close>

definition pub_key_endpoint :: "world \<Rightarrow> string \<Rightarrow> string" where
  "pub_key_endpoint w owner_repo =
     (case github_environment w of
        None \<Rightarrow>
          ''https://api.github.com/'' @ endpoint_path owner_repo @ ''/'' @ owner_repo
            @ ''/actions/secrets/public-key''
      | Some environment_name \<Rightarrow>
          ''https://api.github.com/'' @ endpoint_path owner_repo @ ''/'' @ owner_repo
            @ ''/environments/'' @ environment_name @ ''/secrets/public-key'')"

text \<open>
  The text of the exception of lines 146--150: a backslash at the end of a line of the
  literal joins the next line, whose indentation stays in the text.
\<close>

definition pub_key_failed :: "nat \<Rightarrow> string \<Rightarrow> string \<Rightarrow> string \<Rightarrow> string" where
  "pub_key_failed status body owner_repo github_token =
     ''github public key request failed, '' @ replicate 26 CHR '' ''
       @ ''status code: '' @ str_nat status @ '', '' @ replicate 26 CHR '' ''
       @ ''body: '' @ body @ '', '' @ replicate 26 CHR '' ''
       @ ''vars: '' @ owner_repo @ '' '' @ github_token @ '' '' @ replicate 24 CHR '' ''"

definition get_pub_key :: "world \<Rightarrow> string \<Rightarrow> string \<Rightarrow> event list \<Rightarrow> (string \<times> string) result" where
  "get_pub_key w owner_repo github_token tr =
     (let request = HttpGet (pub_key_endpoint w owner_repo) (''Bearer '' @ github_token) in
      case requests_get w (calls is_HttpGet tr) of
        Inl m \<Rightarrow> (Inl (Raise (RequestException m)), tr @ [request])
      | Inr pub_key_ret \<Rightarrow>
          if status_code pub_key_ret \<noteq> 200
          then (Inl (Raise (Exception (pub_key_failed (status_code pub_key_ret)
                  (body_text pub_key_ret) owner_repo github_token))), tr @ [request])
          else
            (case json pub_key_ret of
               None \<Rightarrow> (Inl (Raise (ValueError ''JSONDecodeError'')), tr @ [request])
             | Some public_key_info \<Rightarrow>
            (case dict_getitem public_key_info ''key'' of
               Inl e \<Rightarrow> (Inl (Raise e), tr @ [request])
             | Inr public_key \<Rightarrow>
            (case dict_getitem public_key_info ''key_id'' of
               Inl e \<Rightarrow> (Inl (Raise e), tr @ [request])
             | Inr public_key_id \<Rightarrow> (Inr (public_key, public_key_id), tr @ [request])))))"

subsection \<open>upload\_secret (lines 164--198)\<close>

text \<open>Lines 167--171: the address of the upload.\<close>

definition secret_endpoint :: "world \<Rightarrow> string \<Rightarrow> string \<Rightarrow> string" where
  "secret_endpoint w owner_repo key_name =
     (case github_environment w of
        None \<Rightarrow>
          ''https://api.github.com/'' @ endpoint_path owner_repo @ ''/'' @ owner_repo
            @ ''/actions/secrets/'' @ key_name
      | Some environment_name \<Rightarrow>
          ''https://api.github.com/'' @ endpoint_path owner_repo @ ''/'' @ owner_repo
            @ ''/environments/'' @ environment_name @ ''/secrets/'' @ key_name)"

definition upload_failed :: "nat \<Rightarrow> string \<Rightarrow> string \<Rightarrow> string \<Rightarrow> string" where
  "upload_failed status body owner_repo github_token =
     ''upload secret request failed, '' @ replicate 26 CHR '' ''
       @ ''status code: '' @ str_nat status @ '', '' @ replicate 26 CHR '' ''
       @ ''body: '' @ body @ '', '' @ replicate 26 CHR '' ''
       @ ''vars: '' @ owner_repo @ '' '' @ github_token @ '' '' @ replicate 24 CHR '' ''"

definition good_status_codes :: "nat list" where
  "good_status_codes = [204, 201]"

definition updated_line :: "world \<Rightarrow> string \<Rightarrow> string \<Rightarrow> string" where
  "updated_line w key_name owner_repo =
     (case github_environment w of
        Some environment_name \<Rightarrow>
          ''Updated: '' @ key_name @ '' in '' @ owner_repo @ '' for '' @ environment_name
      | None \<Rightarrow> ''Updated: '' @ key_name @ '' in '' @ owner_repo)"

definition upload_secret ::
  "world \<Rightarrow> string \<Rightarrow> string \<Rightarrow> string \<Rightarrow> string \<Rightarrow> string \<Rightarrow> event list \<Rightarrow> unit result" where
  "upload_secret w owner_repo key_name encrypted_value' pub_key_id github_token tr =
     (let request = HttpPut (secret_endpoint w owner_repo key_name)
                      \<lparr>encrypted_value = encrypted_value', key_id = pub_key_id,
                       visibility = ''private''\<rparr>
                      (''Bearer '' @ github_token) in
      case requests_put w (calls is_HttpPut tr) of
        Inl m \<Rightarrow> (Inl (Raise (RequestException m)), tr @ [request])
      | Inr updated_secret \<Rightarrow>
          if status_code updated_secret \<notin> set good_status_codes
          then (Inl (Raise (Exception (upload_failed (status_code updated_secret)
                  (body_text updated_secret) owner_repo github_token))), tr @ [request])
          else (Inr (), tr @ [request, Print (updated_line w key_name owner_repo)]))"

subsection \<open>main\_function (lines 21--70)\<close>

text \<open>
  Line 34, \<^verbatim>\<open>os.environ.get('IAM_USERNAME', who_am_i())\<close>: Python evaluates the
  arguments of a call before the call, so \<^verbatim>\<open>who_am_i()\<close> runs first, whether or not
  the variable is set. Lines 35--46 follow: the two required variables, the listing and
  the guard on the number of keys.
\<close>

definition main_precheck ::
  "world \<Rightarrow> event list \<Rightarrow> (string \<times> string \<times> string \<times> string list) result" where
  "main_precheck w tr =
     and_then (who_am_i w tr) (\<lambda>default tr.
       let iam_username = environ_get w ''IAM_USERNAME'' default in
       (case environ_getitem w ''PERSONAL_ACCESS_TOKEN'' of
          Inl e \<Rightarrow> (Inl (Raise e), tr)
        | Inr github_token \<Rightarrow>
       (case environ_getitem w ''OWNER_REPOSITORY'' of
          Inl e \<Rightarrow> (Inl (Raise e), tr)
        | Inr owner_repository \<Rightarrow>
       and_then (iam_list_access_keys w iam_username tr) (\<lambda>list_ret tr.
         let starting_num_keys = length list_ret in
         if starting_num_keys \<ge> 2
         then (Inl (SystemExit 1),
               tr @ [Print ''There are already 2 keys for this user. Cannot rotate tokens.''])
         else (Inr (iam_username, github_token, owner_repository, list_ret),
               tr @ [Print (''Validated <2 keys exist (current count: ''
                              @ str_nat starting_num_keys @ ''), proceeding.'')])))))"

text \<open>Lines 48--52: the new key pair, then its two lines in the output file.\<close>

definition main_mint :: "world \<Rightarrow> string \<Rightarrow> event list \<Rightarrow> (string \<times> string) result" where
  "main_mint w iam_username tr =
     and_then (create_new_keys w iam_username tr) (\<lambda>(new_access_key, new_secret_key) tr.
       (case environ_getitem w ''GITHUB_OUTPUT'' of
          Inl e \<Rightarrow> (Inl (Raise e), tr)
        | Inr path \<Rightarrow>
       (case file_open w (calls is_OpenAppend tr) of
          Some m \<Rightarrow> (Inl (Raise (OSError m)), tr @ [OpenAppend path])
        | None \<Rightarrow>
            (Inr (new_access_key, new_secret_key),
             tr @ [OpenAppend path,
                   FileWrite path (access_key_name w @ ''='' @ new_access_key),
                   FileWrite path (secret_key_name w @ ''='' @ new_secret_key)]))))"

text \<open>Lines 55--64: the body of the loop, for one target.\<close>

definition propagate_one ::
  "world \<Rightarrow> string \<Rightarrow> string \<Rightarrow> string \<Rightarrow> string \<Rightarrow> event list \<Rightarrow> unit result" where
  "propagate_one w github_token new_access_key new_secret_key repos tr =
     and_then (get_pub_key w repos github_token tr) (\<lambda>(public_key, pub_key_id) tr.
     and_then (encrypt w public_key new_access_key tr) (\<lambda>encrypted_access_key tr.
     and_then (encrypt w public_key new_secret_key tr) (\<lambda>encrypted_secret_key tr.
     and_then (upload_secret w repos (access_key_name w) encrypted_access_key pub_key_id
                 github_token tr) (\<lambda>_ tr.
     upload_secret w repos (secret_key_name w) encrypted_secret_key pub_key_id
       github_token tr))))"

text \<open>Line 54: the loop over the targets, in the order of the list.\<close>

fun propagate ::
  "world \<Rightarrow> string \<Rightarrow> string \<Rightarrow> string \<Rightarrow> string list \<Rightarrow> event list \<Rightarrow> unit result" where
  "propagate w github_token new_access_key new_secret_key [] tr = (Inr (), tr)"
| "propagate w github_token new_access_key new_secret_key (repos # rest) tr =
     and_then (propagate_one w github_token new_access_key new_secret_key repos tr) (\<lambda>_ tr.
       propagate w github_token new_access_key new_secret_key rest tr)"

definition targets :: "string \<Rightarrow> string list" where
  "targets owner_repository = map strip (split_on CHR '','' owner_repository)"

text \<open>Lines 66--70: the old key goes when there was exactly one, then \<^verbatim>\<open>sys.exit(0)\<close>.\<close>

definition main_retire :: "world \<Rightarrow> string \<Rightarrow> string list \<Rightarrow> event list \<Rightarrow> unit result" where
  "main_retire w iam_username list_ret tr =
     (if length list_ret = 1
      then (case list_getitem list_ret 0 of
              Inl e \<Rightarrow> (Inl (Raise e), tr)
            | Inr current_access_id \<Rightarrow>
                and_then (delete_old_keys w iam_username current_access_id tr) (\<lambda>_ tr.
                  (Inl (SystemExit 0), tr)))
      else (Inl (SystemExit 0), tr))"

definition main_function :: "world \<Rightarrow> event list \<Rightarrow> unit result" where
  "main_function w tr =
     and_then (main_precheck w tr) (\<lambda>(iam_username, github_token, owner_repository, list_ret) tr.
     and_then (main_mint w iam_username tr) (\<lambda>(new_access_key, new_secret_key) tr.
     and_then (propagate w github_token new_access_key new_secret_key
                 (targets owner_repository) tr) (\<lambda>_ tr.
     main_retire w iam_username list_ret tr)))"

text \<open>The script: the module-level client (lines 13--18), then line 202.\<close>

definition rotate_keys :: "world \<Rightarrow> unit result" where
  "rotate_keys w = and_then (boto3_client w []) (\<lambda>iam tr. main_function w tr)"

subsection \<open>Observations on a trace\<close>

text \<open>The HTTP requests of a trace, in order, as method and address.\<close>

datatype http_method = GET | PUT

fun http_request :: "event \<Rightarrow> (http_method \<times> string) list" where
  "http_request (HttpGet url authorization) = [(GET, url)]"
| "http_request (HttpPut url body authorization) = [(PUT, url)]"
| "http_request e = []"

definition http_log :: "event list \<Rightarrow> (http_method \<times> string) list" where
  "http_log tr = concat (map http_request tr)"

text \<open>The three requests one target receives when nothing fails.\<close>

definition target_requests :: "world \<Rightarrow> string \<Rightarrow> (http_method \<times> string) list" where
  "target_requests w repos =
     [(GET, pub_key_endpoint w repos),
      (PUT, secret_endpoint w repos (access_key_name w)),
      (PUT, secret_endpoint w repos (secret_key_name w))]"

text \<open>
  The events of one target after its public-key request, when nothing fails: two
  sealings under the fetched key, then the two uploads, each followed by its
  confirmation line. \<open>n\<close> is the index of the first sealing.
\<close>

definition sealed_uploads ::
  "world \<Rightarrow> string \<Rightarrow> string \<Rightarrow> string \<Rightarrow> string \<Rightarrow> string \<Rightarrow> string \<Rightarrow> string \<Rightarrow> nat \<Rightarrow> event list" where
  "sealed_uploads w github_token new_access_key new_secret_key repos public_key pub_key_id pk n =
     [SealedBoxEncrypt public_key, SealedBoxEncrypt public_key,
      HttpPut (secret_endpoint w repos (access_key_name w))
        \<lparr>encrypted_value = b64encode w (nacl_seal w n pk new_access_key),
         key_id = pub_key_id, visibility = ''private''\<rparr> (''Bearer '' @ github_token),
      Print (updated_line w (access_key_name w) repos),
      HttpPut (secret_endpoint w repos (secret_key_name w))
        \<lparr>encrypted_value = b64encode w (nacl_seal w (Suc n) pk new_secret_key),
         key_id = pub_key_id, visibility = ''private''\<rparr> (''Bearer '' @ github_token),
      Print (updated_line w (secret_key_name w) repos)]"

text \<open>The events the propagation loop can produce.\<close>

definition github_event :: "event \<Rightarrow> bool" where
  "github_event e = (is_HttpGet e \<or> is_HttpPut e \<or> is_SealedBoxEncrypt e \<or> is_Print e)"

text \<open>
  What the answers of the provider let the loop do with its \<open>i\<close>-th target. The
  \<open>i\<close>-th public-key request is answered by \<open>requests_get w i\<close>; \<open>fetched\<close> is the
  key text, the key id and the decoded key it yields, when the status is 200, the body
  is JSON with both fields and the key decodes. The two uploads of the \<open>i\<close>-th target
  are answered by \<open>requests_put w (2 * i)\<close> and \<open>requests_put w (2 * i + 1)\<close>.
\<close>

definition fetched :: "world \<Rightarrow> nat \<Rightarrow> (string \<times> string \<times> string) option" where
  "fetched w i =
     (case requests_get w i of
        Inl m \<Rightarrow> None
      | Inr resp \<Rightarrow>
          if status_code resp \<noteq> 200 then None
          else (case json resp of
                  None \<Rightarrow> None
                | Some d \<Rightarrow>
               (case map_of d ''key'' of
                  None \<Rightarrow> None
                | Some public_key \<Rightarrow>
               (case map_of d ''key_id'' of
                  None \<Rightarrow> None
                | Some pub_key_id \<Rightarrow>
               (case nacl_PublicKey w public_key of
                  Inl m \<Rightarrow> None
                | Inr pk \<Rightarrow> Some (public_key, pub_key_id, pk))))))"

definition upload_ok :: "world \<Rightarrow> nat \<Rightarrow> bool" where
  "upload_ok w n =
     (case requests_put w n of
        Inl m \<Rightarrow> False
      | Inr resp \<Rightarrow> status_code resp = 204 \<or> status_code resp = 201)"

definition target_ok :: "world \<Rightarrow> nat \<Rightarrow> bool" where
  "target_ok w i = (fetched w i \<noteq> None \<and> upload_ok w (2 * i) \<and> upload_ok w (2 * i + 1))"

text \<open>
  The events of the \<open>i\<close>-th target when it succeeds: its public-key request, then the
  sealings and uploads under the key and key id of that request's answer.
\<close>

definition target_events ::
  "world \<Rightarrow> string \<Rightarrow> string \<Rightarrow> string \<Rightarrow> string \<Rightarrow> nat \<Rightarrow> event list" where
  "target_events w github_token new_access_key new_secret_key repos i =
     HttpGet (pub_key_endpoint w repos) (''Bearer '' @ github_token)
       # (case fetched w i of
            None \<Rightarrow> []
          | Some (public_key, pub_key_id, pk) \<Rightarrow>
              sealed_uploads w github_token new_access_key new_secret_key repos
                public_key pub_key_id pk (2 * i))"

text \<open>The events of a list of targets, the first of them being target number \<open>i\<close>.\<close>

fun loop_events ::
  "world \<Rightarrow> string \<Rightarrow> string \<Rightarrow> string \<Rightarrow> string list \<Rightarrow> nat \<Rightarrow> event list" where
  "loop_events w github_token new_access_key new_secret_key [] i = []"
| "loop_events w github_token new_access_key new_secret_key (repos # rest) i =
     target_events w github_token new_access_key new_secret_key repos i
       @ loop_events w github_token new_access_key new_secret_key rest (Suc i)"

text \<open>
  Every HTTP request of the trace was answered with a success status (200 for a
  public-key request, 201 or 204 for an upload).
\<close>

definition accepted :: "world \<Rightarrow> event list \<Rightarrow> bool" where
  "accepted w tr =
     ((\<forall>i < calls is_HttpGet tr. \<exists>resp. requests_get w i = Inr resp \<and> status_code resp = 200)
      \<and> (\<forall>i < calls is_HttpPut tr. \<exists>resp. requests_put w i = Inr resp
             \<and> (status_code resp = 201 \<or> status_code resp = 204)))"

text \<open>
  A request answered with another status is the last request of its kind and the last
  event of the trace, and the result is the exception built from that answer.
\<close>

definition stopped :: "world \<Rightarrow> abort + 'a \<Rightarrow> event list \<Rightarrow> bool" where
  "stopped w r tr =
     ((\<forall>i resp. i < calls is_HttpGet tr \<longrightarrow> requests_get w i = Inr resp
          \<longrightarrow> status_code resp \<noteq> 200
          \<longrightarrow> Suc i = calls is_HttpGet tr
            \<and> (\<exists>tr0 url authorization. tr = tr0 @ [HttpGet url authorization])
            \<and> (\<exists>owner_repo github_token.
                  r = Inl (Raise (Exception (pub_key_failed (status_code resp) (body_text resp)
                                               owner_repo github_token)))))
      \<and> (\<forall>i resp. i < calls is_HttpPut tr \<longrightarrow> requests_put w i = Inr resp
          \<longrightarrow> status_code resp \<noteq> 201 \<longrightarrow> status_code resp \<noteq> 204
          \<longrightarrow> Suc i = calls is_HttpPut tr
            \<and> (\<exists>tr0 url body authorization. tr = tr0 @ [HttpPut url body authorization])
            \<and> (\<exists>owner_repo github_token.
                  r = Inl (Raise (Exception (upload_failed (status_code resp) (body_text resp)
                                               owner_repo github_token))))))"

text \<open>The lines printed to standard output, in order.\<close>

fun stdout_line :: "event \<Rightarrow> string list" where
  "stdout_line (Print l) = [l]"
| "stdout_line e = []"

definition stdout :: "event list \<Rightarrow> string list" where
  "stdout tr = concat (map stdout_line tr)"

text \<open>The lines written to files, in order, with the path of each.\<close>

fun file_line :: "event \<Rightarrow> (string \<times> string) list" where
  "file_line (FileWrite path l) = [(path, l)]"
| "file_line e = []"

definition file_writes :: "event list \<Rightarrow> (string \<times> string) list" where
  "file_writes tr = concat (map file_line tr)"

text \<open>
  The same world, except that the provider hands out another secret value with each new
  key: used to compare two runs that differ in the secret only.
\<close>

definition with_secret :: "string \<Rightarrow> world \<Rightarrow> world" where
  "with_secret s' w =
     w\<lparr>create_access_key :=
         (\<lambda>n. case create_access_key w n of Inl m \<Rightarrow> Inl m | Inr (a, s) \<Rightarrow> Inr (a, s'))\<rparr>"

text \<open>
  An event with the payloads that may depend on the secret value blanked: the line
  written to the output file and the sealed value of an upload.
\<close>

fun redact :: "event \<Rightarrow> event" where
  "redact (FileWrite path l) = FileWrite path []"
| "redact (HttpPut url body authorization) = HttpPut url (body\<lparr>encrypted_value := []\<rparr>) authorization"
| "redact e = e"

text \<open>
  Two results agree up to the secret: the redacted traces are equal, both stopped the
  same way or both went on with values related by \<open>R\<close>.
\<close>

fun agree :: "('a \<Rightarrow> 'b \<Rightarrow> bool) \<Rightarrow> 'a result \<Rightarrow> 'b result \<Rightarrow> bool" where
  "agree R (Inl a, tr) (Inl b, tr') = (a = b \<and> map redact tr = map redact tr')"
| "agree R (Inr x, tr) (Inr y, tr') = (R x y \<and> map redact tr = map redact tr')"
| "agree R (Inl a, tr) (Inr y, tr') = False"
| "agree R (Inr x, tr) (Inl b, tr') = False"

text \<open>
  The environment-scoped addresses as the interface description of the specification
  words them, with the environment segment before \<^verbatim>\<open>/actions/secrets\<close>.
\<close>

definition spec_env_pub_key_endpoint :: "string \<Rightarrow> string \<Rightarrow> string" where
  "spec_env_pub_key_endpoint owner_repo environment_name =
     ''https://api.github.com/'' @ endpoint_path owner_repo @ ''/'' @ owner_repo
       @ ''/environments/'' @ environment_name @ ''/actions/secrets/public-key''"

definition spec_env_secret_endpoint :: "string \<Rightarrow> string \<Rightarrow> string \<Rightarrow> string" where
  "spec_env_secret_endpoint owner_repo environment_name key_name =
     ''https://api.github.com/'' @ endpoint_path owner_repo @ ''/'' @ owner_repo
       @ ''/environments/'' @ environment_name @ ''/actions/secrets/'' @ key_name"

text \<open>The substring after the last occurrence of a character (all of it when there is none).\<close>

definition after_last :: "char \<Rightarrow> string \<Rightarrow> string" where
  "after_last c s = rev (takeWhile (\<lambda>x. x \<noteq> c) (rev s))"

subsection \<open>Concrete worlds\<close>

text \<open>
  The identity \<^verbatim>\<open>svc-bot\<close> holds one key, \<^verbatim>\<open>AKIA_OLD\<close>; the targets are two
  repositories; every provider call succeeds. The sealing is a stand-in that shows its
  arguments.
\<close>

definition scenario :: world where
  "scenario =
     \<lparr>environ = [''AWS_ACCESS_KEY_ID'' \<mapsto> ''AKIA_JOB'', ''AWS_SECRET_ACCESS_KEY'' \<mapsto> ''job'',
                 ''PERSONAL_ACCESS_TOKEN'' \<mapsto> ''ghp_t'',
                 ''OWNER_REPOSITORY'' \<mapsto> ''org/repoA, org/repoB'',
                 ''GITHUB_OUTPUT'' \<mapsto> ''/tmp/out''],
      get_caller_identity = (\<lambda>n. Inr ''arn:aws:iam::123456789012:user/svc-bot''),
      list_access_keys =
        (\<lambda>n. Inr (if n = 0 then [''AKIA_OLD''] else [''AKIA_OLD'', ''AKIA_NEW''])),
      create_access_key = (\<lambda>n. Inr (''AKIA_NEW'', ''s3cr3t'')),
      delete_access_key = (\<lambda>n. Inr 200),
      requests_get =
        (\<lambda>n. Inr \<lparr>status_code = 200, body_text = [],
                   json = Some [(''key_id'', ''kid'' @ str_nat n), (''key'', ''pk'' @ str_nat n)]\<rparr>),
      requests_put =
        (\<lambda>n. Inr \<lparr>status_code = (if n = 0 then 201 else 204), body_text = [], json = None\<rparr>),
      file_open = (\<lambda>n. None),
      nacl_PublicKey = Inr,
      nacl_seal = (\<lambda>n pk s. pk @ ''#'' @ str_nat n @ ''#'' @ s),
      b64encode = (\<lambda>s. s)\<rparr>"

text \<open>The identity already holds two keys.\<close>

definition two_keys :: world where
  "two_keys = scenario\<lparr>list_access_keys := (\<lambda>n. Inr [''AKIA_OLD'', ''AKIA_OLDER''])\<rparr>"

text \<open>The identity holds no key yet.\<close>

definition no_keys :: world where
  "no_keys = scenario\<lparr>list_access_keys := (\<lambda>n. Inr (if n = 0 then [] else [''AKIA_NEW'']))\<rparr>"

text \<open>The new key does not show in the listing that follows its creation.\<close>

definition unverified :: world where
  "unverified = scenario\<lparr>list_access_keys := (\<lambda>n. Inr [''AKIA_OLD''])\<rparr>"

text \<open>The public-key request of the second target is answered with 404.\<close>

definition repoB_404 :: world where
  "repoB_404 =
     scenario\<lparr>requests_get :=
       (\<lambda>n. if n = 1 then Inr \<lparr>status_code = 404, body_text = ''Not Found'', json = None\<rparr>
             else requests_get scenario n)\<rparr>"

text \<open>Three targets, with blanks around the names; the second one is refused as above.\<close>

definition three_targets :: world where
  "three_targets =
     repoB_404\<lparr>environ :=
       (environ scenario)(''OWNER_REPOSITORY'' \<mapsto> '' org/repoA,org/repoB ,  org/repoC'')\<rparr>"

text \<open>The upload of the secret value to the first target is answered with 403.\<close>

definition upload_403 :: world where
  "upload_403 =
     scenario\<lparr>requests_put :=
       (\<lambda>n. if n = 1 then Inr \<lparr>status_code = 403, body_text = ''Forbidden'', json = None\<rparr>
             else requests_put scenario n)\<rparr>"

text \<open>The deletion of the old key is answered with 500.\<close>

definition delete_500 :: world where
  "delete_500 = scenario\<lparr>delete_access_key := (\<lambda>n. Inr 500)\<rparr>"

text \<open>The targets are scoped to the environment \<^verbatim>\<open>prod\<close>.\<close>

definition scoped :: world where
  "scoped = scenario\<lparr>environ := (environ scenario)(''GITHUB_ENVIRONMENT'' \<mapsto> ''prod'')\<rparr>"

text \<open>
  The identity is named by \<^verbatim>\<open>IAM_USERNAME\<close>, and the introspection call fails (the
  job's own credentials may not call STS).
\<close>

definition named :: world where
  "named =
     scenario\<lparr>environ := (environ scenario)(''IAM_USERNAME'' \<mapsto> ''deploy-bot''),
              get_caller_identity := (\<lambda>n. Inl ''AccessDenied'')\<rparr>"

text \<open>
  The traces of the scenario: after the guard (with the count it printed), after the new
  key and the output file, and the events of each target when nothing fails.
\<close>

definition checked :: "nat \<Rightarrow> event list" where
  "checked n =
     [StsGetCallerIdentity, IamListAccessKeys ''svc-bot'',
      Print (''Validated <2 keys exist (current count: '' @ str_nat n @ ''), proceeding.'')]"

definition minted :: "nat \<Rightarrow> event list" where
  "minted n =
     checked n @
     [IamCreateAccessKey ''svc-bot'', IamListAccessKeys ''svc-bot'',
      Print ''new keys generated, proceeding'', OpenAppend ''/tmp/out'',
      FileWrite ''/tmp/out'' ''access_key_id=AKIA_NEW'',
      FileWrite ''/tmp/out'' ''secret_key_id=s3cr3t'']"

definition repoA_done :: "event list" where
  "repoA_done =
     [HttpGet ''https://api.github.com/repos/org/repoA/actions/secrets/public-key''
        ''Bearer ghp_t'',
      SealedBoxEncrypt ''pk0'', SealedBoxEncrypt ''pk0'',
      HttpPut ''https://api.github.com/repos/org/repoA/actions/secrets/access_key_id''
        \<lparr>encrypted_value = ''pk0#0#AKIA_NEW'', key_id = ''kid0'', visibility = ''private''\<rparr>
        ''Bearer ghp_t'',
      Print ''Updated: access_key_id in org/repoA'',
      HttpPut ''https://api.github.com/repos/org/repoA/actions/secrets/secret_key_id''
        \<lparr>encrypted_value = ''pk0#1#s3cr3t'', key_id = ''kid0'', visibility = ''private''\<rparr>
        ''Bearer ghp_t'',
      Print ''Updated: secret_key_id in org/repoA'']"

definition repoB_done :: "event list" where
  "repoB_done =
     [HttpGet ''https://api.github.com/repos/org/repoB/actions/secrets/public-key''
        ''Bearer ghp_t'',
      SealedBoxEncrypt ''pk1'', SealedBoxEncrypt ''pk1'',
      HttpPut ''https://api.github.com/repos/org/repoB/actions/secrets/access_key_id''
        \<lparr>encrypted_value = ''pk1#2#AKIA_NEW'', key_id = ''kid1'', visibility = ''private''\<rparr>
        ''Bearer ghp_t'',
      Print ''Updated: access_key_id in org/repoB'',
      HttpPut ''https://api.github.com/repos/org/repoB/actions/secrets/secret_key_id''
        \<lparr>encrypted_value = ''pk1#3#s3cr3t'', key_id = ''kid1'', visibility = ''private''\<rparr>
        ''Bearer ghp_t'',
      Print ''Updated: secret_key_id in org/repoB'']"

section \<open>Properties\<close>

subsection \<open>Traces, sequencing and the outcomes of each step\<close>

lemma calls_Nil [simp]: "calls p [] = 0"
  by (simp add: calls_def)

lemma calls_append [simp]: "calls p (xs @ ys) = calls p xs + calls p ys"
  by (simp add: calls_def)

lemma calls_Cons [simp]: "calls p (e # es) = (if p e then Suc (calls p es) else calls p es)"
  by (simp add: calls_def)

lemma and_then_Inl [simp]: "and_then (Inl a, tr) f = (Inl a, tr)"
  by (simp add: and_then_def)

lemma and_then_Inr [simp]: "and_then (Inr x, tr) f = f x tr"
  by (simp add: and_then_def)

lemma and_then_cases:
  assumes "and_then m f = (r, tr')"
  obtains (stop) a where "m = (Inl a, tr')" "r = Inl a"
        | (go) x tr1 where "m = (Inr x, tr1)" "f x tr1 = (r, tr')"
  using assms by (auto simp: and_then_def split: prod.splits sum.splits)

lemma precheck_cases:
  assumes "main_precheck w [] = (r, tr)"
  shows "(calls is_IamListAccessKeys tr = 0 \<and> (\<exists>e. r = Inl (Raise e)) \<and> (tr = [] \<or> tr = [StsGetCallerIdentity]))
   \<or> (\<exists>u m. list_access_keys w 0 = Inl m \<and> r = Inl (Raise (ClientError m))
         \<and> tr = [StsGetCallerIdentity, IamListAccessKeys u])
   \<or> (\<exists>u ks. list_access_keys w 0 = Inr ks \<and> 2 \<le> length ks \<and> r = Inl (SystemExit 1)
         \<and> tr = [StsGetCallerIdentity, IamListAccessKeys u,
                 Print ''There are already 2 keys for this user. Cannot rotate tokens.''])
   \<or> (\<exists>u tok repos ks. list_access_keys w 0 = Inr ks \<and> length ks < 2
         \<and> r = Inr (u, tok, repos, ks)
         \<and> tr = [StsGetCallerIdentity, IamListAccessKeys u,
                 Print (''Validated <2 keys exist (current count: '' @ str_nat (length ks)
                          @ ''), proceeding.'')])"
  using assms
  by (auto simp: main_precheck_def who_am_i_def boto3_client_def iam_list_access_keys_def
        and_then_def Let_def split: sum.splits if_splits)

lemma mint_cases:
  assumes "main_mint w u tr = (r, tr')"
    and "calls is_IamCreateAccessKey tr = 0" and "calls is_IamListAccessKeys tr = 1"
  shows "(\<exists>m. create_access_key w 0 = Inl m \<and> r = Inl (Raise (ClientError m))
            \<and> tr' = tr @ [IamCreateAccessKey u])
   \<or> (\<exists>a s m. create_access_key w 0 = Inr (a, s) \<and> list_access_keys w 1 = Inl m
            \<and> r = Inl (Raise (ClientError m))
            \<and> tr' = tr @ [IamCreateAccessKey u, IamListAccessKeys u])
   \<or> (\<exists>a s ks. create_access_key w 0 = Inr (a, s) \<and> list_access_keys w 1 = Inr ks
            \<and> a \<notin> set ks \<and> r = Inl (SystemExit 1)
            \<and> tr' = tr @ [IamCreateAccessKey u, IamListAccessKeys u,
                          Print ''new keys failed to generate.''])
   \<or> (\<exists>a s ks e evs. create_access_key w 0 = Inr (a, s) \<and> list_access_keys w 1 = Inr ks
            \<and> a \<in> set ks \<and> r = Inl (Raise e)
            \<and> tr' = tr @ [IamCreateAccessKey u, IamListAccessKeys u,
                          Print ''new keys generated, proceeding''] @ evs
            \<and> (evs = [] \<or> (\<exists>path. evs = [OpenAppend path])))
   \<or> (\<exists>a s ks path. create_access_key w 0 = Inr (a, s) \<and> list_access_keys w 1 = Inr ks
            \<and> a \<in> set ks \<and> r = Inr (a, s) \<and> environ w ''GITHUB_OUTPUT'' = Some path
            \<and> tr' = tr @ [IamCreateAccessKey u, IamListAccessKeys u,
                          Print ''new keys generated, proceeding'', OpenAppend path,
                          FileWrite path (access_key_name w @ ''='' @ a),
                          FileWrite path (secret_key_name w @ ''='' @ s)])"
  using assms
  by (auto simp: main_mint_def create_new_keys_def iam_create_access_key_def
        iam_list_access_keys_def environ_getitem_def and_then_def Let_def
        split: sum.splits if_splits option.splits prod.splits)

lemma main_function_cases:
  assumes "main_function w tr = (r, tr')"
  obtains
    (precheck) a where "main_precheck w tr = (Inl a, tr')" "r = Inl a"
  | (mint) u tok repos ks tr1 a where "main_precheck w tr = (Inr (u, tok, repos, ks), tr1)"
      "main_mint w u tr1 = (Inl a, tr')" "r = Inl a"
  | (propagate) u tok repos ks tr1 k s tr2 a where
      "main_precheck w tr = (Inr (u, tok, repos, ks), tr1)"
      "main_mint w u tr1 = (Inr (k, s), tr2)"
      "propagate w tok k s (targets repos) tr2 = (Inl a, tr')" "r = Inl a"
  | (retire) u tok repos ks tr1 k s tr2 tr3 where
      "main_precheck w tr = (Inr (u, tok, repos, ks), tr1)"
      "main_mint w u tr1 = (Inr (k, s), tr2)"
      "propagate w tok k s (targets repos) tr2 = (Inr (), tr3)"
      "main_retire w u ks tr3 = (r, tr')"
  using assms unfolding main_function_def
  by (auto elim!: and_then_cases)

lemma rotate_keys_cases:
  assumes "rotate_keys w = (r, tr)"
  obtains (environ) k where "r = Inl (Raise (KeyError k))" "tr = []"
  | (main) "main_function w [] = (r, tr)"
  using assms unfolding rotate_keys_def boto3_client_def environ_getitem_def
  by (auto simp: and_then_def split: sum.splits option.splits)

lemma get_pub_key_trace:
  "get_pub_key w t tok tr = (r, tr') \<Longrightarrow>
     tr' = tr @ [HttpGet (pub_key_endpoint w t) (''Bearer '' @ tok)]"
  by (auto simp: get_pub_key_def Let_def split: sum.splits if_splits option.splits)

lemma get_pub_key_cases:
  assumes "get_pub_key w t tok tr = (r, tr')"
  shows "(\<exists>m. requests_get w (calls is_HttpGet tr) = Inl m \<and> r = Inl (Raise (RequestException m)))
   \<or> (\<exists>resp. requests_get w (calls is_HttpGet tr) = Inr resp \<and> status_code resp \<noteq> 200
         \<and> r = Inl (Raise (Exception (pub_key_failed (status_code resp) (body_text resp) t tok))))
   \<or> (\<exists>resp. requests_get w (calls is_HttpGet tr) = Inr resp \<and> status_code resp = 200
         \<and> (r = Inl (Raise (ValueError ''JSONDecodeError'')) \<or> (\<exists>k. r = Inl (Raise (KeyError k)))))
   \<or> (\<exists>resp d pk kid. requests_get w (calls is_HttpGet tr) = Inr resp \<and> status_code resp = 200
         \<and> json resp = Some d \<and> map_of d ''key'' = Some pk \<and> map_of d ''key_id'' = Some kid
         \<and> r = Inr (pk, kid))"
  using assms
  by (auto simp: get_pub_key_def dict_getitem_def Let_def split: sum.splits if_splits option.splits)

lemma upload_secret_cases:
  assumes "upload_secret w t name c kid tok tr = (r, tr')"
  shows "(\<exists>m. requests_put w (calls is_HttpPut tr) = Inl m \<and> r = Inl (Raise (RequestException m))
          \<and> tr' = tr @ [HttpPut (secret_endpoint w t name)
                \<lparr>encrypted_value = c, key_id = kid, visibility = ''private''\<rparr> (''Bearer '' @ tok)])
   \<or> (\<exists>resp. requests_put w (calls is_HttpPut tr) = Inr resp
          \<and> status_code resp \<noteq> 201 \<and> status_code resp \<noteq> 204
          \<and> r = Inl (Raise (Exception (upload_failed (status_code resp) (body_text resp) t tok)))
          \<and> tr' = tr @ [HttpPut (secret_endpoint w t name)
                \<lparr>encrypted_value = c, key_id = kid, visibility = ''private''\<rparr> (''Bearer '' @ tok)])
   \<or> (\<exists>resp. requests_put w (calls is_HttpPut tr) = Inr resp
          \<and> (status_code resp = 201 \<or> status_code resp = 204)
          \<and> r = Inr ()
          \<and> tr' = tr @ [HttpPut (secret_endpoint w t name)
                \<lparr>encrypted_value = c, key_id = kid, visibility = ''private''\<rparr> (''Bearer '' @ tok),
                Print (updated_line w name t)])"
  using assms
  by (auto simp: upload_secret_def good_status_codes_def Let_def split: sum.splits if_splits)

lemma encrypt_cases:
  assumes "encrypt w public_key v tr = (r, tr')"
  shows "(\<exists>m. nacl_PublicKey w public_key = Inl m \<and> r = Inl (Raise (ValueError m)) \<and> tr' = tr)
   \<or> (\<exists>pk. nacl_PublicKey w public_key = Inr pk
         \<and> r = Inr (b64encode w (nacl_seal w (calls is_SealedBoxEncrypt tr) pk v))
         \<and> tr' = tr @ [SealedBoxEncrypt public_key])"
  using assms by (auto simp: encrypt_def split: sum.splits)

lemma propagate_one_fetch_failed:
  assumes "propagate_one w tok a s t tr = (r, tr')" and "get_pub_key w t tok tr = (Inl x, tr1)"
  shows "r = Inl x \<and> tr' = tr1"
  using assms by (simp add: propagate_one_def)

lemma propagate_one_key_invalid:
  assumes "propagate_one w tok a s t tr = (r, tr')" and "get_pub_key w t tok tr = (Inr (pk, kid), tr1)"
    and "nacl_PublicKey w pk = Inl m"
  shows "r = Inl (Raise (ValueError m)) \<and> tr' = tr1"
  using assms by (simp add: propagate_one_def encrypt_def)

lemma propagate_one_sealed:
  assumes "propagate_one w tok a s t tr = (r, tr')" and "get_pub_key w t tok tr = (Inr (public_key, kid), tr1)"
    and "nacl_PublicKey w public_key = Inr pk"
  shows "\<exists>evs. tr' = tr1 @ evs
     \<and> prefix evs (sealed_uploads w tok a s t public_key kid pk (calls is_SealedBoxEncrypt tr))
     \<and> ((\<exists>u. r = Inr u) \<longleftrightarrow> evs = sealed_uploads w tok a s t public_key kid pk (calls is_SealedBoxEncrypt tr))
     \<and> (length evs = 3 \<or> length evs = 5 \<or> length evs = 6)"
proof -
  have tr1: "tr1 = tr @ [HttpGet (pub_key_endpoint w t) (''Bearer '' @ tok)]"
    using assms(2) by (rule get_pub_key_trace)
  show ?thesis
    using assms(1)
    by (auto simp: propagate_one_def assms(2,3) encrypt_def tr1 upload_secret_def Let_def
          sealed_uploads_def and_then_def prefix_def
          split: sum.splits if_splits)
qed

lemma http_log_Nil [simp]: "http_log [] = []"
  by (simp add: http_log_def)

lemma http_log_append [simp]: "http_log (xs @ ys) = http_log xs @ http_log ys"
  by (simp add: http_log_def)

lemma http_log_Cons [simp]: "http_log (e # es) = http_request e @ http_log es"
  by (simp add: http_log_def)

lemma propagate_one_cases:
  assumes "propagate_one w tok a s t tr = (r, tr')"
  obtains
    (fetch) x where "get_pub_key w t tok tr = (Inl x, tr')" "r = Inl x"
  | (key) public_key kid m where "get_pub_key w t tok tr = (Inr (public_key, kid), tr')"
      "nacl_PublicKey w public_key = Inl m" "r = Inl (Raise (ValueError m))"
  | (first) public_key kid pk tr1 x where "get_pub_key w t tok tr = (Inr (public_key, kid), tr1)"
      "nacl_PublicKey w public_key = Inr pk"
      "upload_secret w t (access_key_name w)
         (b64encode w (nacl_seal w (calls is_SealedBoxEncrypt tr) pk a)) kid tok
         (tr1 @ [SealedBoxEncrypt public_key, SealedBoxEncrypt public_key]) = (Inl x, tr')"
      "r = Inl x"
  | (second) public_key kid pk tr1 tr2 where "get_pub_key w t tok tr = (Inr (public_key, kid), tr1)"
      "nacl_PublicKey w public_key = Inr pk"
      "upload_secret w t (access_key_name w)
         (b64encode w (nacl_seal w (calls is_SealedBoxEncrypt tr) pk a)) kid tok
         (tr1 @ [SealedBoxEncrypt public_key, SealedBoxEncrypt public_key]) = (Inr (), tr2)"
      "upload_secret w t (secret_key_name w)
         (b64encode w (nacl_seal w (Suc (calls is_SealedBoxEncrypt tr)) pk s)) kid tok tr2 = (r, tr')"
proof -
  obtain g tr1 where g: "get_pub_key w t tok tr = (g, tr1)"
    by (cases "get_pub_key w t tok tr") auto
  then have tr1: "tr1 = tr @ [HttpGet (pub_key_endpoint w t) (''Bearer '' @ tok)]"
    by (rule get_pub_key_trace)
  show ?thesis
  proof (cases g)
    case (Inl x)
    with assms g have "r = Inl x" "tr' = tr1" by (simp_all add: propagate_one_def)
    with g Inl show ?thesis by (auto intro: fetch)
  next
    case (Inr kp)
    obtain public_key kid where kp: "kp = (public_key, kid)" by (cases kp) auto
    show ?thesis
    proof (cases "nacl_PublicKey w public_key")
      case (Inl m)
      with assms g Inr kp have "r = Inl (Raise (ValueError m))" "tr' = tr1"
        by (simp_all add: propagate_one_def encrypt_def)
      with g Inr kp Inl show ?thesis by (auto intro: key)
    next
      case pk: (Inr pk)
      let ?tr2 = "tr1 @ [SealedBoxEncrypt public_key, SealedBoxEncrypt public_key]"
      obtain u tr3 where up: "upload_secret w t (access_key_name w)
         (b64encode w (nacl_seal w (calls is_SealedBoxEncrypt tr) pk a)) kid tok ?tr2 = (u, tr3)"
        by (cases "upload_secret w t (access_key_name w)
         (b64encode w (nacl_seal w (calls is_SealedBoxEncrypt tr) pk a)) kid tok ?tr2") auto
      have unfold: "propagate_one w tok a s t tr =
          and_then (u, tr3) (\<lambda>_ tr''. upload_secret w t (secret_key_name w)
            (b64encode w (nacl_seal w (Suc (calls is_SealedBoxEncrypt tr)) pk s)) kid tok tr'')"
        using g Inr kp pk up by (simp add: propagate_one_def encrypt_def tr1)
      show ?thesis
      proof (cases u)
        case (Inl x)
        with unfold assms have "r = Inl x" "tr' = tr3" by simp_all
        with g Inr kp pk up Inl show ?thesis by (auto intro: first)
      next
        case u: (Inr v)
        with unfold assms have "upload_secret w t (secret_key_name w)
            (b64encode w (nacl_seal w (Suc (calls is_SealedBoxEncrypt tr)) pk s)) kid tok tr3 = (r, tr')"
          by simp
        with g Inr kp pk up u show ?thesis by (auto intro: second)
      qed
    qed
  qed
qed

lemma upload_secret_footprint:
  assumes "upload_secret w t name c kid tok tr = (r, tr')"
  shows "\<exists>evs. tr' = tr @ evs \<and> list_all github_event evs"
  using upload_secret_cases [OF assms] by (auto simp: github_event_def)

lemma propagate_one_footprint:
  assumes "propagate_one w tok a s t tr = (r, tr')"
  shows "\<exists>evs. tr' = tr @ evs \<and> list_all github_event evs"
  using assms
proof (cases rule: propagate_one_cases)
  case (fetch x)
  then show ?thesis by (auto dest!: get_pub_key_trace simp: github_event_def)
next
  case (key public_key kid m)
  then show ?thesis by (auto dest!: get_pub_key_trace simp: github_event_def)
next
  case (first public_key kid pk tr1 x)
  then show ?thesis
    by (auto dest!: get_pub_key_trace upload_secret_footprint simp: github_event_def)
next
  case (second public_key kid pk tr1 tr2)
  then show ?thesis
    by (auto dest!: get_pub_key_trace upload_secret_footprint simp: github_event_def)
qed

lemma propagate_footprint:
  assumes "propagate w tok a s ts tr = (r, tr')"
  shows "\<exists>evs. tr' = tr @ evs \<and> list_all github_event evs"
  using assms
proof (induction ts arbitrary: tr)
  case Nil
  then show ?case by simp
next
  case (Cons t ts)
  from Cons.prems
  have "and_then (propagate_one w tok a s t tr) (\<lambda>_ tr. propagate w tok a s ts tr) = (r, tr')"
    by simp
  then show ?case
  proof (cases rule: and_then_cases)
    case (stop x)
    then show ?thesis by (auto dest: propagate_one_footprint)
  next
    case (go x tr1)
    from go(1) obtain evs1 where "tr1 = tr @ evs1" "list_all github_event evs1"
      by (auto dest: propagate_one_footprint)
    moreover from Cons.IH [OF go(2)] obtain evs2 where "tr' = tr1 @ evs2" "list_all github_event evs2"
      by auto
    ultimately show ?thesis by auto
  qed
qed

subsection \<open>The guard on the number of keys\<close>

text \<open>
  Claim C1. In every run whose first listing answers with two or more keys, the job prints
  the diagnostic and ends with \<^verbatim>\<open>sys.exit(1)\<close>; its whole trace is the
  introspection call, the listing and the diagnostic line, so it creates no key, deletes
  none, sends no request to a target and does not open or write the output file.
\<close>

theorem refuses_at_two_keys:
  assumes run: "rotate_keys w = (r, tr)"
    and listed: "0 < calls is_IamListAccessKeys tr"
    and first: "list_access_keys w 0 = Inr ks"
    and two: "2 \<le> length ks"
  shows "r = Inl (SystemExit 1) \<and> exit_status r = 1
    \<and> (\<exists>u. tr = [StsGetCallerIdentity, IamListAccessKeys u,
                   Print ''There are already 2 keys for this user. Cannot rotate tokens.''])
    \<and> calls is_IamCreateAccessKey tr = 0 \<and> calls is_IamDeleteAccessKey tr = 0
    \<and> calls is_HttpGet tr = 0 \<and> calls is_HttpPut tr = 0
    \<and> calls is_OpenAppend tr = 0 \<and> calls is_FileWrite tr = 0"
proof -
  from run listed have "main_function w [] = (r, tr)"
    by (cases rule: rotate_keys_cases) auto
  then show ?thesis
  proof (cases rule: main_function_cases)
    case (precheck a)
    from precheck_cases [OF precheck(1)] first two listed precheck(2)
    show ?thesis by auto
  next
    case (mint u tok repos ks' tr1 a)
    from precheck_cases [OF mint(1)] first two show ?thesis by auto
  next
    case (propagate u tok repos ks' tr1 k s tr2 a)
    from precheck_cases [OF propagate(1)] first two show ?thesis by auto
  next
    case (retire u tok repos ks' tr1 k s tr2 tr3)
    from precheck_cases [OF retire(1)] first two show ?thesis by auto
  qed
qed

lemma two_keys_run:
  "rotate_keys two_keys =
     (Inl (SystemExit 1),
      [StsGetCallerIdentity, IamListAccessKeys ''svc-bot'',
       Print ''There are already 2 keys for this user. Cannot rotate tokens.''])"
  by code_simp

theorem refuses_at_two_keys_witness:
  "rotate_keys two_keys =
     (Inl (SystemExit 1),
      [StsGetCallerIdentity, IamListAccessKeys ''svc-bot'',
       Print ''There are already 2 keys for this user. Cannot rotate tokens.''])
   \<and> list_access_keys two_keys 0 = Inr [''AKIA_OLD'', ''AKIA_OLDER'']
   \<and> exit_status (fst (rotate_keys two_keys)) = 1
   \<and> calls is_IamCreateAccessKey (snd (rotate_keys two_keys)) = 0"
proof -
  have listed: "0 < calls is_IamListAccessKeys [StsGetCallerIdentity, IamListAccessKeys ''svc-bot'',
       Print ''There are already 2 keys for this user. Cannot rotate tokens.'']"
    by simp
  have first: "list_access_keys two_keys 0 = Inr [''AKIA_OLD'', ''AKIA_OLDER'']"
    by (simp add: two_keys_def)
  have two: "2 \<le> length [''AKIA_OLD'', ''AKIA_OLDER'']"
    by simp
  from refuses_at_two_keys [OF two_keys_run listed first two] two_keys_run first
  show ?thesis by simp
qed

subsection \<open>The check after the creation\<close>

text \<open>
  Claim C2. In every run in which the new access key id is absent from the listing made
  right after its creation, the job prints a diagnostic and ends with
  \<^verbatim>\<open>sys.exit(1)\<close>; the trace ends there, with no request to any target, no
  deletion and no write to the output file.
\<close>

theorem unverified_key_stops_run:
  assumes run: "rotate_keys w = (r, tr)"
    and created: "0 < calls is_IamCreateAccessKey tr"
    and new: "create_access_key w 0 = Inr (a, s)"
    and relist: "list_access_keys w 1 = Inr ks'"
    and absent: "a \<notin> set ks'"
  shows "r = Inl (SystemExit 1) \<and> exit_status r = 1
    \<and> (\<exists>u n. tr = [StsGetCallerIdentity, IamListAccessKeys u,
                     Print (''Validated <2 keys exist (current count: '' @ str_nat n
                              @ ''), proceeding.''),
                     IamCreateAccessKey u, IamListAccessKeys u,
                     Print ''new keys failed to generate.''])
    \<and> calls is_HttpGet tr = 0 \<and> calls is_HttpPut tr = 0
    \<and> calls is_IamDeleteAccessKey tr = 0 \<and> calls is_FileWrite tr = 0"
proof -
  from run created have "main_function w [] = (r, tr)"
    by (cases rule: rotate_keys_cases) auto
  then show ?thesis
  proof (cases rule: main_function_cases)
    case (precheck x)
    from precheck_cases [OF precheck(1)] created show ?thesis by auto
  next
    case (mint u tok repos ks tr1 x)
    from precheck_cases [OF mint(1)]
    have tr1: "tr1 = [StsGetCallerIdentity, IamListAccessKeys u,
        Print (''Validated <2 keys exist (current count: '' @ str_nat (length ks)
                 @ ''), proceeding.'')]"
      by auto
    then have "calls is_IamCreateAccessKey tr1 = 0" "calls is_IamListAccessKeys tr1 = 1"
      by simp_all
    from mint_cases [OF mint(2) this] new relist absent mint(3) tr1
    show ?thesis by auto
  next
    case (propagate u tok repos ks tr1 k s' tr2 x)
    from precheck_cases [OF propagate(1)]
    have tr1: "tr1 = [StsGetCallerIdentity, IamListAccessKeys u,
        Print (''Validated <2 keys exist (current count: '' @ str_nat (length ks)
                 @ ''), proceeding.'')]"
      by auto
    then have "calls is_IamCreateAccessKey tr1 = 0" "calls is_IamListAccessKeys tr1 = 1"
      by simp_all
    from mint_cases [OF propagate(2) this] new relist absent
    show ?thesis by auto
  next
    case (retire u tok repos ks tr1 k s' tr2 tr3)
    from precheck_cases [OF retire(1)]
    have tr1: "tr1 = [StsGetCallerIdentity, IamListAccessKeys u,
        Print (''Validated <2 keys exist (current count: '' @ str_nat (length ks)
                 @ ''), proceeding.'')]"
      by auto
    then have "calls is_IamCreateAccessKey tr1 = 0" "calls is_IamListAccessKeys tr1 = 1"
      by simp_all
    from mint_cases [OF retire(2) this] new relist absent
    show ?thesis by auto
  qed
qed

lemma unverified_run:
  "rotate_keys unverified =
     (Inl (SystemExit 1),
      [StsGetCallerIdentity, IamListAccessKeys ''svc-bot'',
       Print ''Validated <2 keys exist (current count: 1), proceeding.'',
       IamCreateAccessKey ''svc-bot'', IamListAccessKeys ''svc-bot'',
       Print ''new keys failed to generate.''])"
  by code_simp

theorem unverified_key_stops_run_witness:
  "rotate_keys unverified =
     (Inl (SystemExit 1),
      [StsGetCallerIdentity, IamListAccessKeys ''svc-bot'',
       Print ''Validated <2 keys exist (current count: 1), proceeding.'',
       IamCreateAccessKey ''svc-bot'', IamListAccessKeys ''svc-bot'',
       Print ''new keys failed to generate.''])
   \<and> create_access_key unverified 0 = Inr (''AKIA_NEW'', ''s3cr3t'')
   \<and> list_access_keys unverified 1 = Inr [''AKIA_OLD'']
   \<and> ''AKIA_NEW'' \<notin> set [''AKIA_OLD'']
   \<and> exit_status (fst (rotate_keys unverified)) = 1
   \<and> calls is_HttpGet (snd (rotate_keys unverified)) = 0
   \<and> calls is_HttpPut (snd (rotate_keys unverified)) = 0
   \<and> calls is_IamDeleteAccessKey (snd (rotate_keys unverified)) = 0"
proof -
  have created: "0 < calls is_IamCreateAccessKey
     [StsGetCallerIdentity, IamListAccessKeys ''svc-bot'',
       Print ''Validated <2 keys exist (current count: 1), proceeding.'',
       IamCreateAccessKey ''svc-bot'', IamListAccessKeys ''svc-bot'',
       Print ''new keys failed to generate.'']"
    by simp
  have new: "create_access_key unverified 0 = Inr (''AKIA_NEW'', ''s3cr3t'')"
    by (simp add: unverified_def scenario_def)
  have relist: "list_access_keys unverified 1 = Inr [''AKIA_OLD'']"
    by (simp add: unverified_def)
  have absent: "''AKIA_NEW'' \<notin> set [''AKIA_OLD'']"
    by simp
  from unverified_key_stops_run [OF unverified_run created new relist absent]
    unverified_run new relist absent
  show ?thesis by simp
qed

subsection \<open>The addresses of the requests\<close>

lemma github_environment_Some:
  "github_environment w = Some e \<longleftrightarrow> environ w ''GITHUB_ENVIRONMENT'' = Some e \<and> e \<noteq> []"
  by (auto simp: github_environment_def split: option.splits)

text \<open>
  Claim C5, as stated, fails. With the environment scope \<^verbatim>\<open>prod\<close>, the script asks
  for \<^verbatim>\<open>repos/org/repoA/environments/prod/secrets/public-key\<close> and uploads to
  \<^verbatim>\<open>repos/org/repoA/environments/prod/secrets/access_key_id\<close>: there is no
  \<^verbatim>\<open>actions\<close> segment, so neither address is the one the claim describes.
\<close>

theorem environment_endpoints_counterexample:
  "github_environment scoped = Some ''prod''
   \<and> pub_key_endpoint scoped ''org/repoA''
       = ''https://api.github.com/repos/org/repoA/environments/prod/secrets/public-key''
   \<and> spec_env_pub_key_endpoint ''org/repoA'' ''prod''
       = ''https://api.github.com/repos/org/repoA/environments/prod/actions/secrets/public-key''
   \<and> pub_key_endpoint scoped ''org/repoA'' \<noteq> spec_env_pub_key_endpoint ''org/repoA'' ''prod''
   \<and> secret_endpoint scoped ''org/repoA'' ''access_key_id''
       = ''https://api.github.com/repos/org/repoA/environments/prod/secrets/access_key_id''
   \<and> secret_endpoint scoped ''org/repoA'' ''access_key_id''
       \<noteq> spec_env_secret_endpoint ''org/repoA'' ''prod'' ''access_key_id''"
  by (simp add: scoped_def scenario_def github_environment_def pub_key_endpoint_def
        secret_endpoint_def spec_env_pub_key_endpoint_def spec_env_secret_endpoint_def
        endpoint_path_def)

text \<open>
  Claim C5, amended. The path segment is \<^verbatim>\<open>repos\<close> when the target contains a slash
  and \<^verbatim>\<open>orgs\<close> otherwise. An environment scope is in force when
  \<^verbatim>\<open>GITHUB_ENVIRONMENT\<close> is set and not empty; then the public-key request and the
  upload both go to \<^verbatim>\<open>{repos|orgs}/{target}/environments/{env}/secrets/...\<close>, the
  environment segment replacing \<^verbatim>\<open>/actions\<close>; without a scope both go to
  \<^verbatim>\<open>{repos|orgs}/{target}/actions/secrets/...\<close>. These are the addresses of the
  requests the two functions send.
\<close>

theorem endpoints:
  "endpoint_path owner_repo = (if CHR ''/'' \<in> set owner_repo then ''repos'' else ''orgs'')
   \<and> (github_environment w = Some environment_name \<longleftrightarrow>
        environ w ''GITHUB_ENVIRONMENT'' = Some environment_name \<and> environment_name \<noteq> [])
   \<and> (github_environment w = Some environment_name \<longrightarrow>
        pub_key_endpoint w owner_repo
          = ''https://api.github.com/'' @ endpoint_path owner_repo @ ''/'' @ owner_repo
              @ ''/environments/'' @ environment_name @ ''/secrets/public-key''
        \<and> secret_endpoint w owner_repo key_name
          = ''https://api.github.com/'' @ endpoint_path owner_repo @ ''/'' @ owner_repo
              @ ''/environments/'' @ environment_name @ ''/secrets/'' @ key_name)
   \<and> (github_environment w = None \<longrightarrow>
        pub_key_endpoint w owner_repo
          = ''https://api.github.com/'' @ endpoint_path owner_repo @ ''/'' @ owner_repo
              @ ''/actions/secrets/public-key''
        \<and> secret_endpoint w owner_repo key_name
          = ''https://api.github.com/'' @ endpoint_path owner_repo @ ''/'' @ owner_repo
              @ ''/actions/secrets/'' @ key_name)
   \<and> (get_pub_key w owner_repo github_token tr = (g, tr1) \<longrightarrow>
        tr1 = tr @ [HttpGet (pub_key_endpoint w owner_repo) (''Bearer '' @ github_token)])
   \<and> (upload_secret w owner_repo key_name c kid github_token tr = (u, tr2) \<longrightarrow>
        (\<exists>rest. tr2 = tr @ HttpPut (secret_endpoint w owner_repo key_name)
            \<lparr>encrypted_value = c, key_id = kid, visibility = ''private''\<rparr>
            (''Bearer '' @ github_token) # rest))"
proof -
  have path: "endpoint_path owner_repo = (if CHR ''/'' \<in> set owner_repo then ''repos'' else ''orgs'')"
    by (simp add: endpoint_path_def)
  have scoped: "github_environment w = Some environment_name \<longrightarrow>
        pub_key_endpoint w owner_repo
          = ''https://api.github.com/'' @ endpoint_path owner_repo @ ''/'' @ owner_repo
              @ ''/environments/'' @ environment_name @ ''/secrets/public-key''
        \<and> secret_endpoint w owner_repo key_name
          = ''https://api.github.com/'' @ endpoint_path owner_repo @ ''/'' @ owner_repo
              @ ''/environments/'' @ environment_name @ ''/secrets/'' @ key_name"
    by (simp add: pub_key_endpoint_def secret_endpoint_def)
  have plain: "github_environment w = None \<longrightarrow>
        pub_key_endpoint w owner_repo
          = ''https://api.github.com/'' @ endpoint_path owner_repo @ ''/'' @ owner_repo
              @ ''/actions/secrets/public-key''
        \<and> secret_endpoint w owner_repo key_name
          = ''https://api.github.com/'' @ endpoint_path owner_repo @ ''/'' @ owner_repo
              @ ''/actions/secrets/'' @ key_name"
    by (simp add: pub_key_endpoint_def secret_endpoint_def)
  have get: "get_pub_key w owner_repo github_token tr = (g, tr1) \<longrightarrow>
        tr1 = tr @ [HttpGet (pub_key_endpoint w owner_repo) (''Bearer '' @ github_token)]"
    by (blast dest: get_pub_key_trace)
  have put: "upload_secret w owner_repo key_name c kid github_token tr = (u, tr2) \<longrightarrow>
        (\<exists>rest. tr2 = tr @ HttpPut (secret_endpoint w owner_repo key_name)
            \<lparr>encrypted_value = c, key_id = kid, visibility = ''private''\<rparr>
            (''Bearer '' @ github_token) # rest)"
  proof
    assume "upload_secret w owner_repo key_name c kid github_token tr = (u, tr2)"
    from upload_secret_cases [OF this] show "\<exists>rest. tr2 = tr @ HttpPut (secret_endpoint w owner_repo key_name)
            \<lparr>encrypted_value = c, key_id = kid, visibility = ''private''\<rparr>
            (''Bearer '' @ github_token) # rest"
      by auto
  qed
  from path github_environment_Some [of w environment_name] scoped plain get put
  show ?thesis by blast
qed

lemma scoped_fetch:
  "get_pub_key scoped ''org/repoA'' ''ghp_t'' [] =
     (Inr (''pk0'', ''kid0''),
      [HttpGet ''https://api.github.com/repos/org/repoA/environments/prod/secrets/public-key''
         ''Bearer ghp_t''])"
  by code_simp

lemma scoped_upload:
  "upload_secret scoped ''org/repoA'' ''access_key_id'' ''sealed'' ''kid0'' ''ghp_t'' [] =
     (Inr (),
      [HttpPut ''https://api.github.com/repos/org/repoA/environments/prod/secrets/access_key_id''
         \<lparr>encrypted_value = ''sealed'', key_id = ''kid0'', visibility = ''private''\<rparr>
         ''Bearer ghp_t'',
       Print ''Updated: access_key_id in org/repoA for prod''])"
  by code_simp


theorem endpoints_witness:
  "github_environment scoped = Some ''prod''
   \<and> pub_key_endpoint scoped ''org/repoA''
       = ''https://api.github.com/repos/org/repoA/environments/prod/secrets/public-key''
   \<and> secret_endpoint scoped ''org/repoA'' ''access_key_id''
       = ''https://api.github.com/repos/org/repoA/environments/prod/secrets/access_key_id''
   \<and> github_environment scenario = None
   \<and> pub_key_endpoint scenario ''org''
       = ''https://api.github.com/orgs/org/actions/secrets/public-key''
   \<and> secret_endpoint scenario ''org'' ''access_key_id''
       = ''https://api.github.com/orgs/org/actions/secrets/access_key_id''
   \<and> get_pub_key scoped ''org/repoA'' ''ghp_t'' [] =
       (Inr (''pk0'', ''kid0''),
        [HttpGet (pub_key_endpoint scoped ''org/repoA'') ''Bearer ghp_t''])
   \<and> upload_secret scoped ''org/repoA'' ''access_key_id'' ''sealed'' ''kid0'' ''ghp_t'' [] =
       (Inr (),
        [HttpPut (secret_endpoint scoped ''org/repoA'' ''access_key_id'')
           \<lparr>encrypted_value = ''sealed'', key_id = ''kid0'', visibility = ''private''\<rparr>
           ''Bearer ghp_t'',
         Print ''Updated: access_key_id in org/repoA for prod''])"
proof -
  have e: "github_environment scoped = Some ''prod''"
    by (simp add: github_environment_def scoped_def)
  have n: "github_environment scenario = None"
    by (simp add: github_environment_def scenario_def)
  note s = endpoints [of "''org/repoA''" scoped "''prod''" "''access_key_id''" "''ghp_t''" "[]"
      "Inr (''pk0'', ''kid0'')"
      "[HttpGet ''https://api.github.com/repos/org/repoA/environments/prod/secrets/public-key''
         ''Bearer ghp_t'']" "''sealed''" "''kid0''" "Inr ()"
      "[HttpPut ''https://api.github.com/repos/org/repoA/environments/prod/secrets/access_key_id''
         \<lparr>encrypted_value = ''sealed'', key_id = ''kid0'', visibility = ''private''\<rparr>
         ''Bearer ghp_t'',
       Print ''Updated: access_key_id in org/repoA for prod'']"]
  note p = endpoints [of "''org''" scenario "''prod''" "''access_key_id''" "''ghp_t''" "[]"
      "Inr (''pk0'', ''kid0'')" "[]" "''sealed''" "''kid0''" "Inr ()" "[]"]
  have path: "endpoint_path ''org/repoA'' = ''repos''" "endpoint_path ''org'' = ''orgs''"
    using s [THEN conjunct1] p [THEN conjunct1] by simp_all
  from s [THEN conjunct2, THEN conjunct2, THEN conjunct1] e
  have se: "pub_key_endpoint scoped ''org/repoA''
       = ''https://api.github.com/repos/org/repoA/environments/prod/secrets/public-key''"
    "secret_endpoint scoped ''org/repoA'' ''access_key_id''
       = ''https://api.github.com/repos/org/repoA/environments/prod/secrets/access_key_id''"
    by (simp_all add: path)
  from p [THEN conjunct2, THEN conjunct2, THEN conjunct2, THEN conjunct1] n
  have pe: "pub_key_endpoint scenario ''org''
       = ''https://api.github.com/orgs/org/actions/secrets/public-key''"
    "secret_endpoint scenario ''org'' ''access_key_id''
       = ''https://api.github.com/orgs/org/actions/secrets/access_key_id''"
    by (simp_all add: path)
  show ?thesis
    using e n se pe scoped_fetch scoped_upload by simp
qed

subsection \<open>The identity whose keys are rotated\<close>

text \<open>The last element of a split is the text after the last separator.\<close>

lemma split_on_not_Nil [simp]: "split_on c s \<noteq> []"
  by (induction s) (auto split: list.splits)

lemma split_on_absent: "c \<notin> set s \<Longrightarrow> split_on c s = [s]"
  by (induction s) auto

lemma split_on_present: "c \<in> set s \<Longrightarrow> \<exists>p q qs. split_on c s = p # q # qs"
proof (induction s)
  case Nil
  then show ?case by simp
next
  case (Cons x xs)
  show ?case
  proof (cases "x = c")
    case True
    then show ?thesis by (cases "split_on c xs") auto
  next
    case False
    with Cons.prems have "c \<in> set xs" by simp
    from Cons.IH [OF this] False show ?thesis by auto
  qed
qed

lemma after_last_absent:
  assumes "c \<notin> set s"
  shows "after_last c s = s"
proof -
  from assms have "takeWhile (\<lambda>x. x \<noteq> c) (rev s) = rev s"
    by (auto simp: takeWhile_eq_all_conv)
  then show ?thesis unfolding after_last_def by (simp only: rev_rev_ident)
qed

lemma after_last_Cons_sep: "after_last c (c # xs) = after_last c xs"
  by (simp add: after_last_def takeWhile_tail)

lemma after_last_Cons_present: "c \<in> set xs \<Longrightarrow> after_last c (x # xs) = after_last c xs"
  by (simp add: after_last_def takeWhile_append1)

lemma last_split_on: "last (split_on c s) = after_last c s"
proof (induction s)
  case Nil
  then show ?case by (simp add: after_last_def)
next
  case (Cons x xs)
  show ?case
  proof (cases "c \<in> set xs")
    case True
    from split_on_present [OF True] obtain p q qs where s: "split_on c xs = p # q # qs"
      by blast
    with Cons.IH True show ?thesis
      by (simp add: after_last_Cons_present)
  next
    case False
    then have s: "split_on c xs = [xs]" by (rule split_on_absent)
    show ?thesis
    proof (cases "x = c")
      case True
      with s \<open>c \<notin> set xs\<close> show ?thesis
        by (simp add: after_last_Cons_sep after_last_absent)
    next
      case False
      with s \<open>c \<notin> set xs\<close> show ?thesis by (simp add: after_last_absent)
    qed
  qed
qed

lemma after_last_decompose:
  "c \<notin> set (after_last c s) \<and> (c \<in> set s \<longrightarrow> (\<exists>p. s = p @ c # after_last c s))"
proof -
  let ?P = "\<lambda>x. x \<noteq> c"
  have a: "c \<notin> set (after_last c s)"
    using set_takeWhileD [of c ?P "rev s"] by (auto simp: after_last_def)
  have "\<exists>p. s = p @ c # after_last c s" if "c \<in> set s"
  proof (cases "dropWhile ?P (rev s)")
    case Nil
    with that show ?thesis by (auto simp: dropWhile_eq_Nil_conv)
  next
    case (Cons y ys)
    with hd_dropWhile [of ?P "rev s"] have y: "y = c" by simp
    have "rev s = takeWhile ?P (rev s) @ dropWhile ?P (rev s)"
      by (simp only: takeWhile_dropWhile_id)
    with Cons y have "rev s = takeWhile ?P (rev s) @ c # ys" by (simp only:)
    then have "rev (rev s) = rev (takeWhile ?P (rev s) @ c # ys)" by (simp only:)
    then have "s = rev ys @ c # after_last c s"
      by (simp add: after_last_def)
    then show ?thesis ..
  qed
  with a show ?thesis by blast
qed

text \<open>
  A run that passes the first step has asked STS who it is, and the name it goes on with
  is the value of \<^verbatim>\<open>IAM_USERNAME\<close> when that is set, the last path segment of the ARN
  otherwise.
\<close>

lemma identity_resolution:
  assumes "main_precheck w [] = (Inr (u, tok, repos, ks), tr)"
  shows "\<exists>arn. get_caller_identity w 0 = Inr arn
     \<and> u = (case environ w ''IAM_USERNAME'' of
              Some name \<Rightarrow> name | None \<Rightarrow> after_last CHR ''/'' arn)"
  using assms
  by (auto simp: main_precheck_def who_am_i_def boto3_client_def iam_list_access_keys_def
        environ_get_def last_split_on and_then_def Let_def
        split: sum.splits if_splits option.splits)

text \<open>Whatever the environment says, the first thing a run does is the call to STS.\<close>

lemma introspection_comes_first:
  assumes "rotate_keys w = (r, tr)" and "tr \<noteq> []"
  shows "hd tr = StsGetCallerIdentity"
  using assms
proof (cases rule: rotate_keys_cases)
  case (environ e)
  with assms show ?thesis by simp
next
  case main
  then show ?thesis
  proof (cases rule: main_function_cases)
    case (precheck a)
    from precheck_cases [OF precheck(1)] assms(2) show ?thesis by auto
  next
    case (mint u tok repos ks tr1 a)
    from precheck_cases [OF mint(1)]
    have tr1: "hd tr1 = StsGetCallerIdentity" "tr1 \<noteq> []" by auto
    have "calls is_IamCreateAccessKey tr1 = 0" "calls is_IamListAccessKeys tr1 = 1"
      using precheck_cases [OF mint(1)] by auto
    from mint_cases [OF mint(2) this] tr1 show ?thesis by auto
  next
    case (propagate u tok repos ks tr1 k s tr2 a)
    from precheck_cases [OF propagate(1)]
    have tr1: "hd tr1 = StsGetCallerIdentity" "tr1 \<noteq> []" by auto
    have "calls is_IamCreateAccessKey tr1 = 0" "calls is_IamListAccessKeys tr1 = 1"
      using precheck_cases [OF propagate(1)] by auto
    from mint_cases [OF propagate(2) this] tr1
    have tr2: "hd tr2 = StsGetCallerIdentity" "tr2 \<noteq> []" by auto
    from propagate_footprint [OF propagate(3)] tr2 show ?thesis by auto
  next
    case (retire u tok repos ks tr1 k s tr2 tr3)
    from precheck_cases [OF retire(1)]
    have tr1: "hd tr1 = StsGetCallerIdentity" "tr1 \<noteq> []" by auto
    have "calls is_IamCreateAccessKey tr1 = 0" "calls is_IamListAccessKeys tr1 = 1"
      using precheck_cases [OF retire(1)] by auto
    from mint_cases [OF retire(2) this] tr1
    have tr2: "hd tr2 = StsGetCallerIdentity" "tr2 \<noteq> []" by auto
    from propagate_footprint [OF retire(3)] tr2
    have tr3: "hd tr3 = StsGetCallerIdentity" "tr3 \<noteq> []" by auto
    from retire(4) tr3 show ?thesis
      by (auto simp: main_retire_def list_getitem_def delete_old_keys_def and_then_def
            split: if_splits sum.splits)
  qed
qed

text \<open>
  Claim C7 at a concrete run: \<^verbatim>\<open>IAM_USERNAME\<close> names the identity, yet the script
  calls STS first (line 34 evaluates \<^verbatim>\<open>who_am_i()\<close> as an argument), and when that
  call is refused the job dies on its exception before the override is ever read.
\<close>

theorem override_still_queries_sts:
  "environ named ''IAM_USERNAME'' = Some ''deploy-bot''
   \<and> rotate_keys named = (Inl (Raise (ClientError ''AccessDenied'')), [StsGetCallerIdentity])
   \<and> exit_status (fst (rotate_keys named)) = 1"
proof -
  have run: "rotate_keys named = (Inl (Raise (ClientError ''AccessDenied'')), [StsGetCallerIdentity])"
    by code_simp
  have "environ named ''IAM_USERNAME'' = Some ''deploy-bot''"
    by (simp add: named_def)
  with run show ?thesis by simp
qed

subsection \<open>Retiring the old key\<close>

lemma github_event_kinds:
  assumes "github_event e"
  shows "\<not> is_StsGetCallerIdentity e" "\<not> is_IamListAccessKeys e" "\<not> is_IamCreateAccessKey e"
    "\<not> is_IamDeleteAccessKey e" "\<not> is_OpenAppend e" "\<not> is_FileWrite e"
  using assms by (cases e; simp add: github_event_def)+

lemma github_calls:
  assumes "list_all github_event evs"
  shows "calls is_StsGetCallerIdentity evs = 0" "calls is_IamListAccessKeys evs = 0"
    "calls is_IamCreateAccessKey evs = 0" "calls is_IamDeleteAccessKey evs = 0"
    "calls is_OpenAppend evs = 0" "calls is_FileWrite evs = 0"
  using assms by (induction evs; simp add: github_event_kinds)+

lemma precheck_environ:
  assumes "main_precheck w tr = (Inr x, tr')"
  shows "boto3_client w tr0 = (Inr (), tr0)"
  using assms
  by (auto simp: main_precheck_def who_am_i_def boto3_client_def and_then_def
        split: sum.splits)

lemma retire_cases:
  assumes "main_retire w u ks tr = (r, tr')"
  shows "(length ks \<noteq> 1 \<and> r = Inl (SystemExit 0) \<and> tr' = tr)
   \<or> (\<exists>k m. ks = [k] \<and> delete_access_key w (calls is_IamDeleteAccessKey tr) = Inl m
         \<and> r = Inl (Raise (ClientError m)) \<and> tr' = tr @ [IamDeleteAccessKey u k])
   \<or> (\<exists>k st. ks = [k] \<and> delete_access_key w (calls is_IamDeleteAccessKey tr) = Inr st
         \<and> st \<noteq> 200 \<and> r = Inl (SystemExit 1)
         \<and> tr' = tr @ [IamDeleteAccessKey u k, Print ''deletion of original key failed''])
   \<or> (\<exists>k. ks = [k] \<and> delete_access_key w (calls is_IamDeleteAccessKey tr) = Inr 200
         \<and> r = Inl (SystemExit 0) \<and> tr' = tr @ [IamDeleteAccessKey u k])"
proof (cases "length ks = 1")
  case False
  with assms show ?thesis by (simp add: main_retire_def)
next
  case True
  then obtain k where k: "ks = [k]" by (cases ks) auto
  with assms show ?thesis
    by (auto simp: main_retire_def list_getitem_def delete_old_keys_def and_then_def
          split: sum.splits if_splits)
qed

text \<open>
  Claim C3. Take any run that passed the guard, created and verified the new key, wrote
  the output file and finished the loop over all targets. The first listing held no key
  or exactly one, and no deletion has been issued so far. With exactly one key \<open>k\<close>
  the job now issues one deletion, of \<open>k\<close> for the same identity, and ends with
  \<^verbatim>\<open>sys.exit(0)\<close> when the response status is 200 and with \<^verbatim>\<open>sys.exit(1)\<close>
  (after a diagnostic) when it is anything else; an exception of the call ends the job
  too. With no key the job ends with \<^verbatim>\<open>sys.exit(0)\<close> and never calls the deletion.
\<close>

theorem retires_the_single_old_key:
  assumes pre: "main_precheck w [] = (Inr (u, tok, repos, ks), tr1)"
    and mint: "main_mint w u tr1 = (Inr (a, s), tr2)"
    and loop: "propagate w tok a s (targets repos) tr2 = (Inr (), tr3)"
  shows "list_access_keys w 0 = Inr ks \<and> (ks = [] \<or> (\<exists>k. ks = [k]))
    \<and> calls is_IamDeleteAccessKey tr3 = 0
    \<and> (ks = [] \<longrightarrow> rotate_keys w = (Inl (SystemExit 0), tr3))
    \<and> (\<forall>k. ks = [k] \<longrightarrow>
          rotate_keys w =
            (case delete_access_key w 0 of
               Inl m \<Rightarrow> (Inl (Raise (ClientError m)), tr3 @ [IamDeleteAccessKey u k])
             | Inr http_status \<Rightarrow>
                 if http_status = 200
                 then (Inl (SystemExit 0), tr3 @ [IamDeleteAccessKey u k])
                 else (Inl (SystemExit 1),
                       tr3 @ [IamDeleteAccessKey u k,
                              Print ''deletion of original key failed''])))"
proof -
  from precheck_cases [OF pre]
  have first: "list_access_keys w 0 = Inr ks" and few: "length ks < 2"
    and tr1: "tr1 = [StsGetCallerIdentity, IamListAccessKeys u,
       Print (''Validated <2 keys exist (current count: '' @ str_nat (length ks)
                @ ''), proceeding.'')]"
    by auto
  from few have shape: "ks = [] \<or> (\<exists>k. ks = [k])"
    by (cases ks) (auto simp: length_Suc_conv)
  have "calls is_IamCreateAccessKey tr1 = 0" "calls is_IamListAccessKeys tr1 = 1"
    by (simp_all add: tr1)
  from mint_cases [OF mint this] have d2: "calls is_IamDeleteAccessKey tr2 = 0"
    by (auto simp: tr1)
  from propagate_footprint [OF loop] obtain evs where
    tr3: "tr3 = tr2 @ evs" and evs: "list_all github_event evs"
    by blast
  from d2 github_calls(4) [OF evs] have d3: "calls is_IamDeleteAccessKey tr3 = 0"
    by (simp add: tr3)
  have run: "rotate_keys w = main_retire w u ks tr3"
    by (simp add: rotate_keys_def precheck_environ [OF pre] main_function_def pre mint loop)
  have none: "rotate_keys w = (Inl (SystemExit 0), tr3)" if "ks = []"
    using that by (simp add: run main_retire_def)
  have one: "rotate_keys w =
            (case delete_access_key w 0 of
               Inl m \<Rightarrow> (Inl (Raise (ClientError m)), tr3 @ [IamDeleteAccessKey u k])
             | Inr http_status \<Rightarrow>
                 if http_status = 200
                 then (Inl (SystemExit 0), tr3 @ [IamDeleteAccessKey u k])
                 else (Inl (SystemExit 1),
                       tr3 @ [IamDeleteAccessKey u k,
                              Print ''deletion of original key failed'']))" if "ks = [k]" for k
    using that
    by (simp add: run main_retire_def list_getitem_def delete_old_keys_def d3
          split: sum.splits)
  from first shape d3 none one show ?thesis by blast
qed


lemma scenario_steps:
  "main_precheck scenario [] =
     (Inr (''svc-bot'', ''ghp_t'', ''org/repoA, org/repoB'', [''AKIA_OLD'']), checked 1)"
  "main_mint scenario ''svc-bot'' (checked 1) = (Inr (''AKIA_NEW'', ''s3cr3t''), minted 1)"
  "propagate scenario ''ghp_t'' ''AKIA_NEW'' ''s3cr3t'' (targets ''org/repoA, org/repoB'') (minted 1)
     = (Inr (), minted 1 @ repoA_done @ repoB_done)"
  by code_simp+

lemma delete_500_steps:
  "main_precheck delete_500 [] =
     (Inr (''svc-bot'', ''ghp_t'', ''org/repoA, org/repoB'', [''AKIA_OLD'']), checked 1)"
  "main_mint delete_500 ''svc-bot'' (checked 1) = (Inr (''AKIA_NEW'', ''s3cr3t''), minted 1)"
  "propagate delete_500 ''ghp_t'' ''AKIA_NEW'' ''s3cr3t'' (targets ''org/repoA, org/repoB'') (minted 1)
     = (Inr (), minted 1 @ repoA_done @ repoB_done)"
  by code_simp+

lemma no_keys_steps:
  "main_precheck no_keys [] =
     (Inr (''svc-bot'', ''ghp_t'', ''org/repoA, org/repoB'', []), checked 0)"
  "main_mint no_keys ''svc-bot'' (checked 0) = (Inr (''AKIA_NEW'', ''s3cr3t''), minted 0)"
  "propagate no_keys ''ghp_t'' ''AKIA_NEW'' ''s3cr3t'' (targets ''org/repoA, org/repoB'') (minted 0)
     = (Inr (), minted 0 @ repoA_done @ repoB_done)"
  by code_simp+

theorem retires_the_single_old_key_witness:
  "main_precheck scenario [] =
     (Inr (''svc-bot'', ''ghp_t'', ''org/repoA, org/repoB'', [''AKIA_OLD'']), checked 1)
   \<and> main_mint scenario ''svc-bot'' (checked 1) = (Inr (''AKIA_NEW'', ''s3cr3t''), minted 1)
   \<and> propagate scenario ''ghp_t'' ''AKIA_NEW'' ''s3cr3t'' (targets ''org/repoA, org/repoB'')
        (minted 1) = (Inr (), minted 1 @ repoA_done @ repoB_done)
   \<and> rotate_keys scenario =
        (Inl (SystemExit 0),
         (minted 1 @ repoA_done @ repoB_done) @ [IamDeleteAccessKey ''svc-bot'' ''AKIA_OLD''])
   \<and> rotate_keys delete_500 =
        (Inl (SystemExit 1),
         (minted 1 @ repoA_done @ repoB_done)
           @ [IamDeleteAccessKey ''svc-bot'' ''AKIA_OLD'',
              Print ''deletion of original key failed''])
   \<and> rotate_keys no_keys = (Inl (SystemExit 0), minted 0 @ repoA_done @ repoB_done)
   \<and> calls is_IamDeleteAccessKey (minted 0 @ repoA_done @ repoB_done) = 0"
proof -
  note ok = retires_the_single_old_key [OF scenario_steps]
  note ko = retires_the_single_old_key [OF delete_500_steps]
  note no = retires_the_single_old_key [OF no_keys_steps]
  have d: "delete_access_key scenario 0 = Inr 200" "delete_access_key delete_500 0 = Inr 500"
    by (simp_all add: scenario_def delete_500_def)
  from ok [THEN conjunct2, THEN conjunct2, THEN conjunct2, THEN conjunct2, rule_format,
      of "''AKIA_OLD''", OF refl]
  have 1: "rotate_keys scenario =
        (Inl (SystemExit 0),
         (minted 1 @ repoA_done @ repoB_done) @ [IamDeleteAccessKey ''svc-bot'' ''AKIA_OLD''])"
    by (simp add: d)
  from ko [THEN conjunct2, THEN conjunct2, THEN conjunct2, THEN conjunct2, rule_format,
      of "''AKIA_OLD''", OF refl]
  have 2: "rotate_keys delete_500 =
        (Inl (SystemExit 1),
         (minted 1 @ repoA_done @ repoB_done)
           @ [IamDeleteAccessKey ''svc-bot'' ''AKIA_OLD'',
              Print ''deletion of original key failed''])"
    by (simp add: d)
  from no [THEN conjunct2, THEN conjunct2, THEN conjunct2, THEN conjunct1, rule_format, OF refl]
  have 3: "rotate_keys no_keys = (Inl (SystemExit 0), minted 0 @ repoA_done @ repoB_done)" .
  note 4 = no [THEN conjunct2, THEN conjunct2, THEN conjunct1]
  from scenario_steps 1 2 3 4 show ?thesis by (simp only: simp_thms)
qed

subsection \<open>Statuses of the HTTP responses\<close>

lemma accepted_stopped: "accepted w tr \<Longrightarrow> stopped w r tr"
  by (fastforce simp: accepted_def stopped_def)

lemma accepted_same_calls:
  assumes "accepted w tr" and "calls is_HttpGet tr' = calls is_HttpGet tr"
    and "calls is_HttpPut tr' = calls is_HttpPut tr"
  shows "accepted w tr'"
  using assms by (simp add: accepted_def)

lemma accepted_no_calls:
  "calls is_HttpGet tr = 0 \<Longrightarrow> calls is_HttpPut tr = 0 \<Longrightarrow> accepted w tr"
  by (simp add: accepted_def)

lemma get_pub_key_step:
  assumes acc: "accepted w tr" and run: "get_pub_key w t tok tr = (r, tr')"
  shows "stopped w r tr' \<and> ((\<exists>v. r = Inr v) \<longrightarrow> accepted w tr')"
proof -
  have tr': "tr' = tr @ [HttpGet (pub_key_endpoint w t) (''Bearer '' @ tok)]"
    using run by (rule get_pub_key_trace)
  from acc have old: "\<And>i. i < calls is_HttpGet tr \<Longrightarrow>
      \<exists>resp. requests_get w i = Inr resp \<and> status_code resp = 200"
    and puts: "\<And>i. i < calls is_HttpPut tr \<Longrightarrow>
      \<exists>resp. requests_put w i = Inr resp \<and> (status_code resp = 201 \<or> status_code resp = 204)"
    by (auto simp: accepted_def)
  have "stopped w r tr'"
    unfolding stopped_def
  proof (intro conjI allI impI)
    fix i resp
    assume i: "i < calls is_HttpGet tr'" and resp: "requests_get w i = Inr resp"
      and bad: "status_code resp \<noteq> 200"
    from i tr' have "i < calls is_HttpGet tr \<or> i = calls is_HttpGet tr" by auto
    with old resp bad have here: "i = calls is_HttpGet tr" by fastforce
    then show "Suc i = calls is_HttpGet tr'" by (simp add: tr')
    show "\<exists>tr0 url authorization. tr' = tr0 @ [HttpGet url authorization]"
      using tr' by blast
    from get_pub_key_cases [OF run] resp bad here
    show "\<exists>owner_repo github_token.
        r = Inl (Raise (Exception (pub_key_failed (status_code resp) (body_text resp)
                                     owner_repo github_token)))"
      by auto
  next
    fix i resp
    assume i: "i < calls is_HttpPut tr'" and resp: "requests_put w i = Inr resp"
      and bad: "status_code resp \<noteq> 201" "status_code resp \<noteq> 204"
    from i tr' have "i < calls is_HttpPut tr" by simp
    with puts resp bad have False by fastforce
    then show "Suc i = calls is_HttpPut tr'"
      "\<exists>tr0 url body authorization. tr' = tr0 @ [HttpPut url body authorization]"
      "\<exists>owner_repo github_token.
        r = Inl (Raise (Exception (upload_failed (status_code resp) (body_text resp)
                                     owner_repo github_token)))"
      by simp_all
  qed
  moreover have "accepted w tr'" if "r = Inr v" for v
  proof -
    from get_pub_key_cases [OF run] that obtain resp where
      "requests_get w (calls is_HttpGet tr) = Inr resp" "status_code resp = 200"
      by auto
    with old puts show ?thesis
      by (auto simp: accepted_def tr' less_Suc_eq)
  qed
  ultimately show ?thesis by blast
qed

lemma upload_secret_step:
  assumes acc: "accepted w tr" and run: "upload_secret w t name c kid tok tr = (r, tr')"
  shows "stopped w r tr' \<and> ((\<exists>v. r = Inr v) \<longrightarrow> accepted w tr')"
proof -
  from acc have gets: "\<And>i. i < calls is_HttpGet tr \<Longrightarrow>
      \<exists>resp. requests_get w i = Inr resp \<and> status_code resp = 200"
    and old: "\<And>i. i < calls is_HttpPut tr \<Longrightarrow>
      \<exists>resp. requests_put w i = Inr resp \<and> (status_code resp = 201 \<or> status_code resp = 204)"
    by (auto simp: accepted_def)
  note cases = upload_secret_cases [OF run]
  from cases have cg: "calls is_HttpGet tr' = calls is_HttpGet tr"
    and cp: "calls is_HttpPut tr' = Suc (calls is_HttpPut tr)"
    by auto
  have "stopped w r tr'"
    unfolding stopped_def
  proof (intro conjI allI impI)
    fix i resp
    assume i: "i < calls is_HttpGet tr'" and resp: "requests_get w i = Inr resp"
      and bad: "status_code resp \<noteq> 200"
    from i cg gets resp bad have False by fastforce
    then show "Suc i = calls is_HttpGet tr'"
      "\<exists>tr0 url authorization. tr' = tr0 @ [HttpGet url authorization]"
      "\<exists>owner_repo github_token.
        r = Inl (Raise (Exception (pub_key_failed (status_code resp) (body_text resp)
                                     owner_repo github_token)))"
      by simp_all
  next
    fix i resp
    assume i: "i < calls is_HttpPut tr'" and resp: "requests_put w i = Inr resp"
      and bad: "status_code resp \<noteq> 201" "status_code resp \<noteq> 204"
    from i cp have "i < calls is_HttpPut tr \<or> i = calls is_HttpPut tr" by auto
    with old resp bad have here: "i = calls is_HttpPut tr" by fastforce
    then show "Suc i = calls is_HttpPut tr'" by (simp add: cp)
    from cases resp bad here
    show "\<exists>tr0 url body authorization. tr' = tr0 @ [HttpPut url body authorization]"
      by auto
    from cases resp bad here
    show "\<exists>owner_repo github_token.
        r = Inl (Raise (Exception (upload_failed (status_code resp) (body_text resp)
                                     owner_repo github_token)))"
      by auto
  qed
  moreover have "accepted w tr'" if "r = Inr v" for v
  proof -
    from cases that obtain resp where
      "requests_put w (calls is_HttpPut tr) = Inr resp"
      "status_code resp = 201 \<or> status_code resp = 204"
      by auto
    with old gets show ?thesis
      by (auto simp: accepted_def cg cp less_Suc_eq)
  qed
  ultimately show ?thesis by blast
qed

lemma propagate_one_step:
  assumes acc: "accepted w tr" and run: "propagate_one w tok a s t tr = (r, tr')"
  shows "stopped w r tr' \<and> ((\<exists>v. r = Inr v) \<longrightarrow> accepted w tr')"
  using run
proof (cases rule: propagate_one_cases)
  case (fetch x)
  from get_pub_key_step [OF acc fetch(1)] fetch(2) show ?thesis
    by (simp add: stopped_def)
next
  case (key public_key kid m)
  from get_pub_key_step [OF acc key(1)] have "accepted w tr'" by simp
  with key(3) show ?thesis by (simp add: accepted_stopped)
next
  case (first public_key kid pk tr1 x)
  from get_pub_key_step [OF acc first(1)] have "accepted w tr1" by simp
  then have "accepted w (tr1 @ [SealedBoxEncrypt public_key, SealedBoxEncrypt public_key])"
    by (rule accepted_same_calls) simp_all
  from upload_secret_step [OF this first(3)] first(4) show ?thesis
    by (simp add: stopped_def)
next
  case (second public_key kid pk tr1 tr2)
  from get_pub_key_step [OF acc second(1)] have "accepted w tr1" by simp
  then have "accepted w (tr1 @ [SealedBoxEncrypt public_key, SealedBoxEncrypt public_key])"
    by (rule accepted_same_calls) simp_all
  from upload_secret_step [OF this second(3)] have "accepted w tr2" by simp
  from upload_secret_step [OF this second(4)] show ?thesis .
qed

lemma propagate_step:
  assumes "accepted w tr" and "propagate w tok a s ts tr = (r, tr')"
  shows "stopped w r tr' \<and> ((\<exists>v. r = Inr v) \<longrightarrow> accepted w tr')"
  using assms
proof (induction ts arbitrary: tr)
  case Nil
  then show ?case by (auto simp: accepted_stopped)
next
  case (Cons t ts)
  from Cons.prems(2)
  have "and_then (propagate_one w tok a s t tr) (\<lambda>_ tr. propagate w tok a s ts tr) = (r, tr')"
    by simp
  then show ?case
  proof (cases rule: and_then_cases)
    case (stop x)
    from propagate_one_step [OF Cons.prems(1) stop(1)] stop(2) show ?thesis
      by (simp add: stopped_def)
  next
    case (go u tr1)
    from propagate_one_step [OF Cons.prems(1) go(1)] have "accepted w tr1" by simp
    from Cons.IH [OF this go(2)] show ?thesis .
  qed
qed

lemma before_loop_calls:
  assumes "main_precheck w [] = (Inr (u, tok, repos, ks), tr1)" and "main_mint w u tr1 = (r, tr2)"
  shows "calls is_HttpGet tr2 = 0" "calls is_HttpPut tr2 = 0" "calls is_IamDeleteAccessKey tr2 = 0"
proof -
  from precheck_cases [OF assms(1)]
  have tr1: "tr1 = [StsGetCallerIdentity, IamListAccessKeys u,
        Print (''Validated <2 keys exist (current count: '' @ str_nat (length ks)
                 @ ''), proceeding.'')]"
    by auto
  then have "calls is_IamCreateAccessKey tr1 = 0" "calls is_IamListAccessKeys tr1 = 1"
    by simp_all
  from mint_cases [OF assms(2) this] tr1
  show "calls is_HttpGet tr2 = 0" "calls is_HttpPut tr2 = 0" "calls is_IamDeleteAccessKey tr2 = 0"
    by auto
qed

lemma precheck_calls:
  assumes "main_precheck w [] = (r, tr)"
  shows "calls is_HttpGet tr = 0" "calls is_HttpPut tr = 0" "calls is_IamDeleteAccessKey tr = 0"
  using precheck_cases [OF assms] by auto

lemma retire_calls:
  assumes "main_retire w u ks tr = (r, tr')"
  shows "calls is_HttpGet tr' = calls is_HttpGet tr" "calls is_HttpPut tr' = calls is_HttpPut tr"
  using retire_cases [OF assms] by auto

lemma rotate_keys_stopped:
  assumes "rotate_keys w = (r, tr)"
  shows "stopped w r tr"
  using assms
proof (cases rule: rotate_keys_cases)
  case (environ e)
  then show ?thesis by (simp add: accepted_stopped accepted_no_calls)
next
  case main
  then show ?thesis
  proof (cases rule: main_function_cases)
    case (precheck a)
    from precheck_calls [OF precheck(1)] show ?thesis
      by (simp add: accepted_stopped accepted_no_calls)
  next
    case (mint u tok repos ks tr1 a)
    from before_loop_calls [OF mint(1,2)] show ?thesis
      by (simp add: accepted_stopped accepted_no_calls)
  next
    case (propagate u tok repos ks tr1 k s tr2 a)
    from before_loop_calls [OF propagate(1,2)] have "accepted w tr2"
      by (simp add: accepted_no_calls)
    from propagate_step [OF this propagate(3)] propagate(4) show ?thesis
      by (simp add: stopped_def)
  next
    case (retire u tok repos ks tr1 k s tr2 tr3)
    from before_loop_calls [OF retire(1,2)] have "accepted w tr2"
      by (simp add: accepted_no_calls)
    from propagate_step [OF this retire(3)] have "accepted w tr3" by simp
    then have "accepted w tr"
      by (rule accepted_same_calls) (simp_all add: retire_calls [OF retire(4)])
    then show ?thesis by (rule accepted_stopped)
  qed
qed

text \<open>
  Claim C6. An upload whose response has status 204 or 201 succeeds and prints its
  confirmation; with any other status \<^verbatim>\<open>upload_secret\<close> raises an exception whose
  message holds the status code and the response body, right after the request. A
  public-key request answered with a status other than 200 does the same. In a whole
  run, a request that got such an answer is the last request of its kind and the last
  event of the trace (nothing is retried, nothing follows), the run ends with that
  exception, and the exit status is 1.
\<close>

theorem refused_requests_end_the_job:
  "(requests_put w (calls is_HttpPut tr0) = Inr updated_secret \<longrightarrow>
      upload_secret w owner_repo key_name sealed kid github_token tr0 =
        (if status_code updated_secret = 204 \<or> status_code updated_secret = 201
         then (Inr (),
               tr0 @ [HttpPut (secret_endpoint w owner_repo key_name)
                        \<lparr>encrypted_value = sealed, key_id = kid, visibility = ''private''\<rparr>
                        (''Bearer '' @ github_token),
                      Print (updated_line w key_name owner_repo)])
         else (Inl (Raise (Exception (upload_failed (status_code updated_secret)
                  (body_text updated_secret) owner_repo github_token))),
               tr0 @ [HttpPut (secret_endpoint w owner_repo key_name)
                        \<lparr>encrypted_value = sealed, key_id = kid, visibility = ''private''\<rparr>
                        (''Bearer '' @ github_token)])))
   \<and> (requests_get w (calls is_HttpGet tr0) = Inr pub_key_ret \<longrightarrow>
        status_code pub_key_ret \<noteq> 200 \<longrightarrow>
        get_pub_key w owner_repo github_token tr0 =
          (Inl (Raise (Exception (pub_key_failed (status_code pub_key_ret)
                  (body_text pub_key_ret) owner_repo github_token))),
           tr0 @ [HttpGet (pub_key_endpoint w owner_repo) (''Bearer '' @ github_token)]))
   \<and> (\<exists>before between after.
         upload_failed status body owner_repo github_token
           = before @ str_nat status @ between @ body @ after)
   \<and> (\<exists>before between after.
         pub_key_failed status body owner_repo github_token
           = before @ str_nat status @ between @ body @ after)
   \<and> (rotate_keys w = (r, tr) \<longrightarrow>
        (\<forall>i resp. i < calls is_HttpPut tr \<longrightarrow> requests_put w i = Inr resp
           \<longrightarrow> status_code resp \<noteq> 201 \<longrightarrow> status_code resp \<noteq> 204
           \<longrightarrow> Suc i = calls is_HttpPut tr
             \<and> (\<exists>tr1 url json_body authorization. tr = tr1 @ [HttpPut url json_body authorization])
             \<and> (\<exists>target token.
                   r = Inl (Raise (Exception (upload_failed (status_code resp) (body_text resp)
                                                target token))))
             \<and> exit_status r = 1)
      \<and> (\<forall>i resp. i < calls is_HttpGet tr \<longrightarrow> requests_get w i = Inr resp
           \<longrightarrow> status_code resp \<noteq> 200
           \<longrightarrow> Suc i = calls is_HttpGet tr
             \<and> (\<exists>tr1 url authorization. tr = tr1 @ [HttpGet url authorization])
             \<and> (\<exists>target token.
                   r = Inl (Raise (Exception (pub_key_failed (status_code resp) (body_text resp)
                                                target token))))
             \<and> exit_status r = 1))"
proof -
  have put: "requests_put w (calls is_HttpPut tr0) = Inr updated_secret \<longrightarrow>
      upload_secret w owner_repo key_name sealed kid github_token tr0 =
        (if status_code updated_secret = 204 \<or> status_code updated_secret = 201
         then (Inr (),
               tr0 @ [HttpPut (secret_endpoint w owner_repo key_name)
                        \<lparr>encrypted_value = sealed, key_id = kid, visibility = ''private''\<rparr>
                        (''Bearer '' @ github_token),
                      Print (updated_line w key_name owner_repo)])
         else (Inl (Raise (Exception (upload_failed (status_code updated_secret)
                  (body_text updated_secret) owner_repo github_token))),
               tr0 @ [HttpPut (secret_endpoint w owner_repo key_name)
                        \<lparr>encrypted_value = sealed, key_id = kid, visibility = ''private''\<rparr>
                        (''Bearer '' @ github_token)]))"
    by (simp add: upload_secret_def good_status_codes_def)
  have get: "requests_get w (calls is_HttpGet tr0) = Inr pub_key_ret \<longrightarrow>
        status_code pub_key_ret \<noteq> 200 \<longrightarrow>
        get_pub_key w owner_repo github_token tr0 =
          (Inl (Raise (Exception (pub_key_failed (status_code pub_key_ret)
                  (body_text pub_key_ret) owner_repo github_token))),
           tr0 @ [HttpGet (pub_key_endpoint w owner_repo) (''Bearer '' @ github_token)])"
    by (simp add: get_pub_key_def)
  have m1: "\<exists>before between after.
         upload_failed status body owner_repo github_token
           = before @ str_nat status @ between @ body @ after"
    unfolding upload_failed_def
    by (intro exI [of _ "''upload secret request failed, '' @ replicate 26 CHR '' '' @ ''status code: ''"]
          exI [of _ "'', '' @ replicate 26 CHR '' '' @ ''body: ''"]
          exI [of _ "'', '' @ replicate 26 CHR '' '' @ ''vars: '' @ owner_repo @ '' ''
                      @ github_token @ '' '' @ replicate 24 CHR '' ''"])
       (simp only: append_assoc)
  have m2: "\<exists>before between after.
         pub_key_failed status body owner_repo github_token
           = before @ str_nat status @ between @ body @ after"
    unfolding pub_key_failed_def
    by (intro exI [of _ "''github public key request failed, '' @ replicate 26 CHR '' '' @ ''status code: ''"]
          exI [of _ "'', '' @ replicate 26 CHR '' '' @ ''body: ''"]
          exI [of _ "'', '' @ replicate 26 CHR '' '' @ ''vars: '' @ owner_repo @ '' ''
                      @ github_token @ '' '' @ replicate 24 CHR '' ''"])
       (simp only: append_assoc)
  have run: "rotate_keys w = (r, tr) \<longrightarrow>
        (\<forall>i resp. i < calls is_HttpPut tr \<longrightarrow> requests_put w i = Inr resp
           \<longrightarrow> status_code resp \<noteq> 201 \<longrightarrow> status_code resp \<noteq> 204
           \<longrightarrow> Suc i = calls is_HttpPut tr
             \<and> (\<exists>tr1 url json_body authorization. tr = tr1 @ [HttpPut url json_body authorization])
             \<and> (\<exists>target token.
                   r = Inl (Raise (Exception (upload_failed (status_code resp) (body_text resp)
                                                target token))))
             \<and> exit_status r = 1)
      \<and> (\<forall>i resp. i < calls is_HttpGet tr \<longrightarrow> requests_get w i = Inr resp
           \<longrightarrow> status_code resp \<noteq> 200
           \<longrightarrow> Suc i = calls is_HttpGet tr
             \<and> (\<exists>tr1 url authorization. tr = tr1 @ [HttpGet url authorization])
             \<and> (\<exists>target token.
                   r = Inl (Raise (Exception (pub_key_failed (status_code resp) (body_text resp)
                                                target token))))
             \<and> exit_status r = 1)"
  proof
    assume "rotate_keys w = (r, tr)"
    then have s: "stopped w r tr" by (rule rotate_keys_stopped)
    show "(\<forall>i resp. i < calls is_HttpPut tr \<longrightarrow> requests_put w i = Inr resp
           \<longrightarrow> status_code resp \<noteq> 201 \<longrightarrow> status_code resp \<noteq> 204
           \<longrightarrow> Suc i = calls is_HttpPut tr
             \<and> (\<exists>tr1 url json_body authorization. tr = tr1 @ [HttpPut url json_body authorization])
             \<and> (\<exists>target token.
                   r = Inl (Raise (Exception (upload_failed (status_code resp) (body_text resp)
                                                target token))))
             \<and> exit_status r = 1)
      \<and> (\<forall>i resp. i < calls is_HttpGet tr \<longrightarrow> requests_get w i = Inr resp
           \<longrightarrow> status_code resp \<noteq> 200
           \<longrightarrow> Suc i = calls is_HttpGet tr
             \<and> (\<exists>tr1 url authorization. tr = tr1 @ [HttpGet url authorization])
             \<and> (\<exists>target token.
                   r = Inl (Raise (Exception (pub_key_failed (status_code resp) (body_text resp)
                                                target token))))
             \<and> exit_status r = 1)"
    proof (intro conjI allI impI)
      fix i resp
      assume a: "i < calls is_HttpPut tr" "requests_put w i = Inr resp"
        "status_code resp \<noteq> 201" "status_code resp \<noteq> 204"
      with s have c: "Suc i = calls is_HttpPut tr
          \<and> (\<exists>tr1 url json_body authorization. tr = tr1 @ [HttpPut url json_body authorization])
          \<and> (\<exists>target token.
                r = Inl (Raise (Exception (upload_failed (status_code resp) (body_text resp)
                                             target token))))"
        unfolding stopped_def by blast
      then show "Suc i = calls is_HttpPut tr"
        "\<exists>tr1 url json_body authorization. tr = tr1 @ [HttpPut url json_body authorization]"
        "\<exists>target token.
                r = Inl (Raise (Exception (upload_failed (status_code resp) (body_text resp)
                                             target token)))"
        by blast+
      from c show "exit_status r = 1" by auto
    next
      fix i resp
      assume a: "i < calls is_HttpGet tr" "requests_get w i = Inr resp"
        "status_code resp \<noteq> 200"
      with s have c: "Suc i = calls is_HttpGet tr
          \<and> (\<exists>tr1 url authorization. tr = tr1 @ [HttpGet url authorization])
          \<and> (\<exists>target token.
                r = Inl (Raise (Exception (pub_key_failed (status_code resp) (body_text resp)
                                             target token))))"
        unfolding stopped_def by blast
      then show "Suc i = calls is_HttpGet tr"
        "\<exists>tr1 url authorization. tr = tr1 @ [HttpGet url authorization]"
        "\<exists>target token.
                r = Inl (Raise (Exception (pub_key_failed (status_code resp) (body_text resp)
                                             target token)))"
        by blast+
      from c show "exit_status r = 1" by auto
    qed
  qed
  from put get m1 m2 run show ?thesis by (intro conjI)
qed


lemma upload_403_run:
  "rotate_keys upload_403 =
     (Inl (Raise (Exception (upload_failed 403 ''Forbidden'' ''org/repoA'' ''ghp_t''))),
      minted 1 @ butlast repoA_done)"
  by code_simp

lemma repoB_404_run:
  "rotate_keys repoB_404 =
     (Inl (Raise (Exception (pub_key_failed 404 ''Not Found'' ''org/repoB'' ''ghp_t''))),
      minted 1 @ repoA_done
        @ [HttpGet ''https://api.github.com/repos/org/repoB/actions/secrets/public-key''
             ''Bearer ghp_t''])"
  by code_simp

theorem refused_requests_end_the_job_witness:
  "rotate_keys upload_403 =
     (Inl (Raise (Exception (upload_failed 403 ''Forbidden'' ''org/repoA'' ''ghp_t''))),
      minted 1 @ butlast repoA_done)
   \<and> requests_put upload_403 1
       = Inr \<lparr>status_code = 403, body_text = ''Forbidden'', json = None\<rparr>
   \<and> Suc 1 = calls is_HttpPut (minted 1 @ butlast repoA_done)
   \<and> (\<exists>tr1 url json_body authorization.
         minted 1 @ butlast repoA_done = tr1 @ [HttpPut url json_body authorization])
   \<and> exit_status (Inl (Raise (Exception
         (upload_failed 403 ''Forbidden'' ''org/repoA'' ''ghp_t''))) :: abort + unit) = 1
   \<and> rotate_keys repoB_404 =
     (Inl (Raise (Exception (pub_key_failed 404 ''Not Found'' ''org/repoB'' ''ghp_t''))),
      minted 1 @ repoA_done
        @ [HttpGet ''https://api.github.com/repos/org/repoB/actions/secrets/public-key''
             ''Bearer ghp_t''])
   \<and> requests_get repoB_404 1
       = Inr \<lparr>status_code = 404, body_text = ''Not Found'', json = None\<rparr>
   \<and> Suc 1 = calls is_HttpGet (minted 1 @ repoA_done
        @ [HttpGet ''https://api.github.com/repos/org/repoB/actions/secrets/public-key''
             ''Bearer ghp_t''])"
proof -
  let ?forbidden = "\<lparr>status_code = 403, body_text = ''Forbidden'', json = None\<rparr>"
  let ?missing = "\<lparr>status_code = 404, body_text = ''Not Found'', json = None\<rparr>"
  have put: "requests_put upload_403 1 = Inr ?forbidden"
    by (simp add: upload_403_def)
  have get: "requests_get repoB_404 1 = Inr ?missing"
    by (simp add: repoB_404_def)
  have nput: "1 < calls is_HttpPut (minted 1 @ butlast repoA_done)"
    by code_simp
  have nget: "1 < calls is_HttpGet (minted 1 @ repoA_done
        @ [HttpGet ''https://api.github.com/repos/org/repoB/actions/secrets/public-key''
             ''Bearer ghp_t''])"
    by code_simp
  have s: "status_code ?forbidden \<noteq> 201" "status_code ?forbidden \<noteq> 204"
    "status_code ?missing \<noteq> 200"
    by simp_all
  note a = refused_requests_end_the_job [where w = upload_403
      and r = "Inl (Raise (Exception (upload_failed 403 ''Forbidden'' ''org/repoA'' ''ghp_t'')))"
      and tr = "minted 1 @ butlast repoA_done",
      THEN conjunct2, THEN conjunct2, THEN conjunct2, THEN conjunct2, THEN mp,
      OF upload_403_run, THEN conjunct1, rule_format, OF nput put s(1,2)]
  note b = refused_requests_end_the_job [where w = repoB_404
      and r = "Inl (Raise (Exception (pub_key_failed 404 ''Not Found'' ''org/repoB'' ''ghp_t'')))"
      and tr = "minted 1 @ repoA_done
        @ [HttpGet ''https://api.github.com/repos/org/repoB/actions/secrets/public-key''
             ''Bearer ghp_t'']",
      THEN conjunct2, THEN conjunct2, THEN conjunct2, THEN conjunct2, THEN mp,
      OF repoB_404_run, THEN conjunct2, rule_format, OF nget get s(3)]
  from upload_403_run put a [THEN conjunct1] a [THEN conjunct2, THEN conjunct1]
    a [THEN conjunct2, THEN conjunct2, THEN conjunct2] repoB_404_run get b [THEN conjunct1]
  show ?thesis by (intro conjI)
qed

subsection \<open>The index into the first listing\<close>

lemma calls_zero: "calls p tr = 0 \<longleftrightarrow> (\<forall>e \<in> set tr. \<not> p e)"
  by (auto simp: calls_def filter_empty_conv)

lemma no_deletion_yet:
  assumes "calls is_IamDeleteAccessKey tr = 0"
  shows "IamDeleteAccessKey u k \<notin> set tr"
  using assms by (auto simp: calls_zero)

lemma boto3_client_raises:
  "boto3_client w tr = (Inl x, tr') \<Longrightarrow> \<exists>k. x = Raise (KeyError k)"
  by (auto simp: boto3_client_def environ_getitem_def split: option.splits)

lemma precheck_raises:
  "main_precheck w tr = (Inl x, tr') \<Longrightarrow> x \<noteq> Raise IndexError"
  by (auto simp: main_precheck_def who_am_i_def boto3_client_def iam_list_access_keys_def
        environ_getitem_def and_then_def Let_def split: sum.splits if_splits option.splits)

lemma mint_raises:
  "main_mint w u tr = (Inl x, tr') \<Longrightarrow> x \<noteq> Raise IndexError"
  by (auto simp: main_mint_def create_new_keys_def iam_create_access_key_def
        iam_list_access_keys_def environ_getitem_def and_then_def
        split: sum.splits if_splits option.splits prod.splits)

lemma get_pub_key_raises:
  "get_pub_key w t tok tr = (Inl x, tr') \<Longrightarrow> x \<noteq> Raise IndexError"
  by (drule get_pub_key_cases) auto

lemma upload_secret_raises:
  "upload_secret w t name c kid tok tr = (Inl x, tr') \<Longrightarrow> x \<noteq> Raise IndexError"
  by (drule upload_secret_cases) auto

lemma propagate_one_raises:
  assumes "propagate_one w tok a s t tr = (Inl x, tr')"
  shows "x \<noteq> Raise IndexError"
  using assms
proof (cases rule: propagate_one_cases)
  case (fetch y)
  then show ?thesis by (auto dest: get_pub_key_raises)
next
  case (key public_key kid m)
  then show ?thesis by auto
next
  case (first public_key kid pk tr1 y)
  then show ?thesis by (auto dest: upload_secret_raises)
next
  case (second public_key kid pk tr1 tr2)
  then show ?thesis by (auto dest: upload_secret_raises)
qed

lemma propagate_raises:
  assumes "propagate w tok a s ts tr = (Inl x, tr')"
  shows "x \<noteq> Raise IndexError"
  using assms
proof (induction ts arbitrary: tr)
  case Nil
  then show ?case by simp
next
  case (Cons t ts)
  from Cons.prems
  have "and_then (propagate_one w tok a s t tr) (\<lambda>_ tr. propagate w tok a s ts tr) = (Inl x, tr')"
    by simp
  then show ?case
  proof (cases rule: and_then_cases)
    case (stop y)
    then show ?thesis by (auto dest: propagate_one_raises)
  next
    case (go u tr1)
    from Cons.IH [OF go(2)] show ?thesis .
  qed
qed

text \<open>
  Claim C9. No run ends with an \<^verbatim>\<open>IndexError\<close>: the only index access,
  \<^verbatim>\<open>list_ret["AccessKeyMetadata"][0]\<close>, is guarded by the count being one. Every
  deletion a run issues names the single key of the first listing, the one made before
  the new key was created; and a run issues at most one deletion.
\<close>

theorem deletion_names_the_old_key:
  assumes "rotate_keys w = (r, tr)"
  shows "r \<noteq> Inl (Raise IndexError)
    \<and> (\<forall>u k. IamDeleteAccessKey u k \<in> set tr \<longrightarrow> list_access_keys w 0 = Inr [k])
    \<and> calls is_IamDeleteAccessKey tr \<le> 1"
  using assms
proof (cases rule: rotate_keys_cases)
  case (environ k)
  then show ?thesis by simp
next
  case main
  then show ?thesis
  proof (cases rule: main_function_cases)
    case (precheck a)
    note z = precheck_calls(3) [OF precheck(1)]
    from z no_deletion_yet [OF z] precheck_raises [OF precheck(1)] precheck(2)
    show ?thesis by auto
  next
    case (mint u tok repos ks tr1 a)
    note z = before_loop_calls(3) [OF mint(1,2)]
    from z no_deletion_yet [OF z] mint_raises [OF mint(2)] mint(3)
    show ?thesis by auto
  next
    case (propagate u tok repos ks tr1 k s tr2 a)
    from propagate_footprint [OF propagate(3)] obtain evs where
      "tr = tr2 @ evs" "list_all github_event evs" by blast
    with before_loop_calls(3) [OF propagate(1,2)] github_calls(4) [of evs]
    have z: "calls is_IamDeleteAccessKey tr = 0" by simp
    from z no_deletion_yet [OF z] propagate_raises [OF propagate(3)] propagate(4)
    show ?thesis by auto
  next
    case (retire u tok repos ks tr1 k s tr2 tr3)
    from precheck_cases [OF retire(1)] have first: "list_access_keys w 0 = Inr ks"
      by auto
    from propagate_footprint [OF retire(3)] obtain evs where
      "tr3 = tr2 @ evs" "list_all github_event evs" by blast
    with before_loop_calls(3) [OF retire(1,2)] github_calls(4) [of evs]
    have d3: "calls is_IamDeleteAccessKey tr3 = 0" by simp
    then have none: "\<And>u k. IamDeleteAccessKey u k \<notin> set tr3"
      by (rule no_deletion_yet)
    from retire_cases [OF retire(4)] first d3 none
    show ?thesis by auto
  qed
qed


lemma scenario_run:
  "rotate_keys scenario =
     (Inl (SystemExit 0),
      (minted 1 @ repoA_done @ repoB_done) @ [IamDeleteAccessKey ''svc-bot'' ''AKIA_OLD''])"
  by code_simp

theorem deletion_names_the_old_key_witness:
  "rotate_keys scenario =
     (Inl (SystemExit 0),
      (minted 1 @ repoA_done @ repoB_done) @ [IamDeleteAccessKey ''svc-bot'' ''AKIA_OLD''])
   \<and> IamDeleteAccessKey ''svc-bot'' ''AKIA_OLD''
       \<in> set ((minted 1 @ repoA_done @ repoB_done)
                @ [IamDeleteAccessKey ''svc-bot'' ''AKIA_OLD''])
   \<and> list_access_keys scenario 0 = Inr [''AKIA_OLD'']
   \<and> calls is_IamDeleteAccessKey
        ((minted 1 @ repoA_done @ repoB_done) @ [IamDeleteAccessKey ''svc-bot'' ''AKIA_OLD''])
       \<le> 1"
proof -
  have mem: "IamDeleteAccessKey ''svc-bot'' ''AKIA_OLD''
       \<in> set ((minted 1 @ repoA_done @ repoB_done)
                @ [IamDeleteAccessKey ''svc-bot'' ''AKIA_OLD''])"
    by simp
  note t = deletion_names_the_old_key [OF scenario_run]
  from scenario_run mem t [THEN conjunct2, THEN conjunct1, rule_format, OF mem]
    t [THEN conjunct2, THEN conjunct2]
  show ?thesis by (intro conjI)
qed

subsection \<open>Where the secret value goes\<close>

text \<open>What a run writes to files: nothing, or the two lines of the new key.\<close>

lemma file_writes_Nil [simp]: "file_writes [] = []"
  by (simp add: file_writes_def)

lemma file_writes_append [simp]: "file_writes (xs @ ys) = file_writes xs @ file_writes ys"
  by (simp add: file_writes_def)

lemma file_writes_Cons [simp]: "file_writes (e # es) = file_line e @ file_writes es"
  by (simp add: file_writes_def)

lemma github_file_writes:
  assumes "list_all github_event evs"
  shows "file_writes evs = []"
  using assms
proof (induction evs)
  case Nil
  then show ?case by simp
next
  case (Cons e evs)
  then have "github_event e" by simp
  then have "file_line e = []" by (cases e) (simp_all add: github_event_def)
  with Cons show ?case by simp
qed

lemma file_writes_of_run:
  assumes "rotate_keys w = (r, tr)"
  shows "file_writes tr = []
    \<or> (\<exists>path a s. environ w ''GITHUB_OUTPUT'' = Some path \<and> create_access_key w 0 = Inr (a, s)
          \<and> file_writes tr = [(path, access_key_name w @ ''='' @ a),
                                (path, secret_key_name w @ ''='' @ s)])"
  using assms
proof (cases rule: rotate_keys_cases)
  case (environ k)
  then show ?thesis by simp
next
  case main
  then show ?thesis
  proof (cases rule: main_function_cases)
    case (precheck a)
    from precheck_cases [OF precheck(1)] show ?thesis by auto
  next
    case (mint u tok repos ks tr1 x)
    from precheck_cases [OF mint(1)]
    have tr1: "tr1 = [StsGetCallerIdentity, IamListAccessKeys u,
        Print (''Validated <2 keys exist (current count: '' @ str_nat (length ks)
                 @ ''), proceeding.'')]"
      by auto
    then have "calls is_IamCreateAccessKey tr1 = 0" "calls is_IamListAccessKeys tr1 = 1"
      by simp_all
    from mint_cases [OF mint(2) this] tr1 show ?thesis by auto
  next
    case (propagate u tok repos ks tr1 k s tr2 x)
    from precheck_cases [OF propagate(1)]
    have tr1: "tr1 = [StsGetCallerIdentity, IamListAccessKeys u,
        Print (''Validated <2 keys exist (current count: '' @ str_nat (length ks)
                 @ ''), proceeding.'')]"
      by auto
    then have "calls is_IamCreateAccessKey tr1 = 0" "calls is_IamListAccessKeys tr1 = 1"
      by simp_all
    from mint_cases [OF propagate(2) this] tr1
    have two: "\<exists>path. environ w ''GITHUB_OUTPUT'' = Some path \<and> create_access_key w 0 = Inr (k, s)
          \<and> file_writes tr2 = [(path, access_key_name w @ ''='' @ k),
                                 (path, secret_key_name w @ ''='' @ s)]"
      by auto
    from propagate_footprint [OF propagate(3)] obtain evs where
      "tr = tr2 @ evs" "list_all github_event evs" by blast
    with two show ?thesis by (auto simp: github_file_writes)
  next
    case (retire u tok repos ks tr1 k s tr2 tr3)
    from precheck_cases [OF retire(1)]
    have tr1: "tr1 = [StsGetCallerIdentity, IamListAccessKeys u,
        Print (''Validated <2 keys exist (current count: '' @ str_nat (length ks)
                 @ ''), proceeding.'')]"
      by auto
    then have "calls is_IamCreateAccessKey tr1 = 0" "calls is_IamListAccessKeys tr1 = 1"
      by simp_all
    from mint_cases [OF retire(2) this] tr1
    have two: "\<exists>path. environ w ''GITHUB_OUTPUT'' = Some path \<and> create_access_key w 0 = Inr (k, s)
          \<and> file_writes tr2 = [(path, access_key_name w @ ''='' @ k),
                                 (path, secret_key_name w @ ''='' @ s)]"
      by auto
    from propagate_footprint [OF retire(3)] obtain evs where
      "tr3 = tr2 @ evs" "list_all github_event evs" by blast
    with two have "\<exists>path. environ w ''GITHUB_OUTPUT'' = Some path \<and> create_access_key w 0 = Inr (k, s)
          \<and> file_writes tr3 = [(path, access_key_name w @ ''='' @ k),
                                 (path, secret_key_name w @ ''='' @ s)]"
      by (auto simp: github_file_writes)
    moreover from retire_cases [OF retire(4)] have "file_writes tr = file_writes tr3"
      by auto
    ultimately show ?thesis by auto
  qed
qed

text \<open>
  Two runs against worlds that differ in the secret value only: step by step, their
  results agree up to the payloads that hold the secret.
\<close>

lemma redact_kind [simp]:
  "is_StsGetCallerIdentity (redact e) = is_StsGetCallerIdentity e"
  "is_IamListAccessKeys (redact e) = is_IamListAccessKeys e"
  "is_IamCreateAccessKey (redact e) = is_IamCreateAccessKey e"
  "is_IamDeleteAccessKey (redact e) = is_IamDeleteAccessKey e"
  "is_HttpGet (redact e) = is_HttpGet e"
  "is_HttpPut (redact e) = is_HttpPut e"
  "is_SealedBoxEncrypt (redact e) = is_SealedBoxEncrypt e"
  "is_OpenAppend (redact e) = is_OpenAppend e"
  by (cases e; simp)+

lemma calls_map_redact:
  assumes "\<And>e. p (redact e) = p e"
  shows "calls p (map redact tr) = calls p tr"
  by (induction tr) (simp_all add: assms)

lemma calls_redacted:
  assumes "map redact t1 = map redact t2"
  shows "calls is_StsGetCallerIdentity t1 = calls is_StsGetCallerIdentity t2"
    "calls is_IamListAccessKeys t1 = calls is_IamListAccessKeys t2"
    "calls is_IamCreateAccessKey t1 = calls is_IamCreateAccessKey t2"
    "calls is_IamDeleteAccessKey t1 = calls is_IamDeleteAccessKey t2"
    "calls is_HttpGet t1 = calls is_HttpGet t2"
    "calls is_HttpPut t1 = calls is_HttpPut t2"
    "calls is_SealedBoxEncrypt t1 = calls is_SealedBoxEncrypt t2"
    "calls is_OpenAppend t1 = calls is_OpenAppend t2"
  using calls_map_redact [of is_StsGetCallerIdentity t1] calls_map_redact [of is_StsGetCallerIdentity t2]
    calls_map_redact [of is_IamListAccessKeys t1] calls_map_redact [of is_IamListAccessKeys t2]
    calls_map_redact [of is_IamCreateAccessKey t1] calls_map_redact [of is_IamCreateAccessKey t2]
    calls_map_redact [of is_IamDeleteAccessKey t1] calls_map_redact [of is_IamDeleteAccessKey t2]
    calls_map_redact [of is_HttpGet t1] calls_map_redact [of is_HttpGet t2]
    calls_map_redact [of is_HttpPut t1] calls_map_redact [of is_HttpPut t2]
    calls_map_redact [of is_SealedBoxEncrypt t1] calls_map_redact [of is_SealedBoxEncrypt t2]
    calls_map_redact [of is_OpenAppend t1] calls_map_redact [of is_OpenAppend t2]
    assms
  by simp_all

lemma stdout_redacted:
  assumes "map redact t1 = map redact t2"
  shows "stdout t1 = stdout t2"
proof -
  have "stdout_line (redact e) = stdout_line e" for e by (cases e) simp_all
  then have "stdout (map redact tr) = stdout tr" for tr
    by (induction tr) (simp_all add: stdout_def)
  from this [of t1] this [of t2] assms show ?thesis by simp
qed

lemma with_secret_fields [simp]:
  "environ (with_secret s' w) = environ w"
  "get_caller_identity (with_secret s' w) = get_caller_identity w"
  "list_access_keys (with_secret s' w) = list_access_keys w"
  "delete_access_key (with_secret s' w) = delete_access_key w"
  "requests_get (with_secret s' w) = requests_get w"
  "requests_put (with_secret s' w) = requests_put w"
  "file_open (with_secret s' w) = file_open w"
  "nacl_PublicKey (with_secret s' w) = nacl_PublicKey w"
  by (simp_all add: with_secret_def)

lemma with_secret_environ [simp]:
  "environ_getitem (with_secret s' w) = environ_getitem w"
  "environ_get (with_secret s' w) = environ_get w"
  "access_key_name (with_secret s' w) = access_key_name w"
  "secret_key_name (with_secret s' w) = secret_key_name w"
  "github_environment (with_secret s' w) = github_environment w"
  "pub_key_endpoint (with_secret s' w) = pub_key_endpoint w"
  "secret_endpoint (with_secret s' w) = secret_endpoint w"
  "updated_line (with_secret s' w) = updated_line w"
  by (auto simp: fun_eq_iff environ_getitem_def environ_get_def access_key_name_def
        secret_key_name_def github_environment_def pub_key_endpoint_def secret_endpoint_def
        updated_line_def)

lemma with_secret_create:
  "create_access_key (with_secret s' w) n =
     (case create_access_key w n of Inl m \<Rightarrow> Inl m | Inr (a, s) \<Rightarrow> Inr (a, s'))"
  by (simp add: with_secret_def)

lemma agree_and_then:
  assumes "agree R m1 m2"
    and "\<And>x y t1 t2. R x y \<Longrightarrow> map redact t1 = map redact t2 \<Longrightarrow> agree S (f x t1) (g y t2)"
  shows "agree S (and_then m1 f) (and_then m2 g)"
proof -
  obtain r1 t1 r2 t2 where m: "m1 = (r1, t1)" "m2 = (r2, t2)"
    by (cases m1, cases m2) auto
  with assms show ?thesis
    by (cases r1; cases r2) simp_all
qed

lemma agree_weaken:
  assumes "agree R m1 m2" and "\<And>x y. R x y \<Longrightarrow> S x y"
  shows "agree S m1 m2"
proof -
  obtain r1 t1 r2 t2 where m: "m1 = (r1, t1)" "m2 = (r2, t2)"
    by (cases m1, cases m2) auto
  with assms show ?thesis
    by (cases r1; cases r2) simp_all
qed

lemma agree_main_precheck:
  assumes eq: "map redact t1 = map redact t2"
  shows "agree (=) (main_precheck (with_secret s' w) t1) (main_precheck w t2)"
  using eq calls_redacted(1,2) [OF eq]
  by (auto simp: main_precheck_def who_am_i_def boto3_client_def iam_list_access_keys_def
        and_then_def Let_def split: sum.splits)


lemma agree_main_mint:
  assumes eq: "map redact t1 = map redact t2"
  shows "agree (\<lambda>x y. fst x = fst y) (main_mint (with_secret s' w) u t1) (main_mint w u t2)"
  using eq calls_redacted(2,3,8) [OF eq]
  by (auto simp: main_mint_def create_new_keys_def iam_create_access_key_def
        iam_list_access_keys_def with_secret_create and_then_def
        split: sum.splits option.splits)

lemma agree_get_pub_key:
  assumes eq: "map redact t1 = map redact t2"
  shows "agree (=) (get_pub_key (with_secret s' w) t tok t1) (get_pub_key w t tok t2)"
  using eq calls_redacted(5) [OF eq]
  by (auto simp: get_pub_key_def Let_def split: sum.splits option.splits)

lemma agree_encrypt:
  assumes eq: "map redact t1 = map redact t2"
  shows "agree (\<lambda>x y. True) (encrypt (with_secret s' w) pk v1 t1) (encrypt w pk v2 t2)"
  using eq by (auto simp: encrypt_def split: sum.splits)

lemma agree_upload_secret:
  assumes eq: "map redact t1 = map redact t2"
  shows "agree (=) (upload_secret (with_secret s' w) t name c1 kid tok t1)
           (upload_secret w t name c2 kid tok t2)"
  using eq calls_redacted(6) [OF eq]
  by (auto simp: upload_secret_def Let_def split: sum.splits)

lemma agree_propagate_one:
  assumes eq: "map redact t1 = map redact t2"
  shows "agree (=) (propagate_one (with_secret s' w) tok a s1 t t1) (propagate_one w tok a s2 t t2)"
  unfolding propagate_one_def
  apply (rule agree_and_then [OF agree_get_pub_key [OF eq]])
  apply clarsimp
  apply (rule agree_and_then [OF agree_encrypt], assumption)
  apply (rule agree_and_then [OF agree_encrypt], assumption)
  apply (rule agree_and_then [OF agree_upload_secret], assumption)
  apply (rule agree_upload_secret, assumption)
  done

lemma agree_propagate:
  assumes "map redact t1 = map redact t2"
  shows "agree (=) (propagate (with_secret s' w) tok a s1 ts t1) (propagate w tok a s2 ts t2)"
  using assms
proof (induction ts arbitrary: t1 t2)
  case Nil
  then show ?case by simp
next
  case (Cons t ts)
  show ?case
    unfolding propagate.simps
    by (rule agree_and_then [OF agree_propagate_one [OF Cons.prems]]) (rule Cons.IH)
qed

lemma agree_main_retire:
  assumes eq: "map redact t1 = map redact t2"
  shows "agree (=) (main_retire (with_secret s' w) u ks t1) (main_retire w u ks t2)"
  using eq calls_redacted(4) [OF eq]
  by (auto simp: main_retire_def list_getitem_def delete_old_keys_def and_then_def
        split: sum.splits)

lemma agree_main_function:
  assumes eq: "map redact t1 = map redact t2"
  shows "agree (=) (main_function (with_secret s' w) t1) (main_function w t2)"
  unfolding main_function_def
  apply (rule agree_and_then [OF agree_main_precheck [OF eq]])
  apply clarsimp
  apply (rule agree_and_then [OF agree_main_mint], assumption)
  apply clarsimp
  apply (rule agree_and_then [OF agree_propagate], assumption)
  apply (rule agree_main_retire, assumption)
  done

lemma agree_rotate_keys:
  "agree (=) (rotate_keys (with_secret s' w)) (rotate_keys w)"
  unfolding rotate_keys_def
  by (auto simp: boto3_client_def and_then_def agree_main_function split: sum.splits)

lemma agree_eq:
  assumes "agree (=) (r1, t1) (r2, t2)"
  shows "r1 = r2 \<and> map redact t1 = map redact t2"
  using assms by (cases r1; cases r2) simp_all

text \<open>The loop never ends the job with \<^verbatim>\<open>sys.exit\<close>; a run that exits 0 went through it.\<close>

lemma get_pub_key_exits: "get_pub_key w t tok tr = (Inl x, tr') \<Longrightarrow> x \<noteq> SystemExit n"
  by (drule get_pub_key_cases) auto

lemma upload_secret_exits:
  "upload_secret w t name c kid tok tr = (Inl x, tr') \<Longrightarrow> x \<noteq> SystemExit n"
  by (drule upload_secret_cases) auto

lemma propagate_one_exits:
  assumes "propagate_one w tok a s t tr = (Inl x, tr')"
  shows "x \<noteq> SystemExit n"
  using assms
proof (cases rule: propagate_one_cases)
  case (fetch y)
  then show ?thesis by (auto dest: get_pub_key_exits)
next
  case (key public_key kid m)
  then show ?thesis by auto
next
  case (first public_key kid pk tr1 y)
  then show ?thesis by (auto dest: upload_secret_exits)
next
  case (second public_key kid pk tr1 tr2)
  then show ?thesis by (auto dest: upload_secret_exits)
qed

lemma propagate_exits:
  assumes "propagate w tok a s ts tr = (Inl x, tr')"
  shows "x \<noteq> SystemExit n"
  using assms
proof (induction ts arbitrary: tr)
  case Nil
  then show ?case by simp
next
  case (Cons t ts)
  from Cons.prems
  have "and_then (propagate_one w tok a s t tr) (\<lambda>_ tr. propagate w tok a s ts tr) = (Inl x, tr')"
    by simp
  then show ?case
  proof (cases rule: and_then_cases)
    case (stop y)
    then show ?thesis by (auto dest: propagate_one_exits)
  next
    case (go u tr1)
    from Cons.IH [OF go(2)] show ?thesis .
  qed
qed

lemma success_after_loop:
  assumes "rotate_keys w = (Inl (SystemExit 0), tr)"
  shows "\<exists>u tok repos ks tr1 k s tr2 tr3.
      main_precheck w [] = (Inr (u, tok, repos, ks), tr1)
    \<and> main_mint w u tr1 = (Inr (k, s), tr2)
    \<and> propagate w tok k s (targets repos) tr2 = (Inr (), tr3)
    \<and> main_retire w u ks tr3 = (Inl (SystemExit 0), tr)"
  using assms
proof (cases rule: rotate_keys_cases)
  case (environ k)
  then show ?thesis by simp
next
  case main
  then show ?thesis
  proof (cases rule: main_function_cases)
    case (precheck a)
    from precheck_cases [OF precheck(1)] precheck(2) show ?thesis by auto
  next
    case (mint u tok repos ks tr1 x)
    from precheck_cases [OF mint(1)]
    have tr1: "tr1 = [StsGetCallerIdentity, IamListAccessKeys u,
        Print (''Validated <2 keys exist (current count: '' @ str_nat (length ks)
                 @ ''), proceeding.'')]"
      by auto
    then have "calls is_IamCreateAccessKey tr1 = 0" "calls is_IamListAccessKeys tr1 = 1"
      by simp_all
    from mint_cases [OF mint(2) this] mint(3) show ?thesis by auto
  next
    case (propagate u tok repos ks tr1 k s tr2 x)
    from propagate_exits [OF propagate(3), of 0] propagate(4) show ?thesis by auto
  next
    case (retire u tok repos ks tr1 k s tr2 tr3)
    then show ?thesis by blast
  qed
qed

text \<open>
  Claim C8, amended. The new secret value is written to disk, by design: lines 50--52
  append \<^verbatim>\<open>{secret_key_name}={secret}\<close> to the file named by \<^verbatim>\<open>GITHUB_OUTPUT\<close>.
  That line and the line of the access key id are all a run ever writes to a file, and
  every run that exits 0 has written them. The secret value reaches neither standard
  output nor the error that ends a run: with another secret value and the same answers
  of the providers, the run ends the same way (same exit, same exception and message)
  and prints the same lines.
\<close>

theorem secret_value_flow:
  "fst (rotate_keys (with_secret s' w)) = fst (rotate_keys w)
   \<and> stdout (snd (rotate_keys (with_secret s' w))) = stdout (snd (rotate_keys w))
   \<and> (file_writes (snd (rotate_keys w)) = []
       \<or> (\<exists>path a s. environ w ''GITHUB_OUTPUT'' = Some path
             \<and> create_access_key w 0 = Inr (a, s)
             \<and> file_writes (snd (rotate_keys w))
                 = [(path, access_key_name w @ ''='' @ a),
                    (path, secret_key_name w @ ''='' @ s)]))
   \<and> (fst (rotate_keys w) = Inl (SystemExit 0) \<longrightarrow> file_writes (snd (rotate_keys w)) \<noteq> [])"
proof -
  obtain r tr where run: "rotate_keys w = (r, tr)"
    by (cases "rotate_keys w") auto
  obtain r' tr' where run': "rotate_keys (with_secret s' w) = (r', tr')"
    by (cases "rotate_keys (with_secret s' w)") auto
  from agree_rotate_keys [of s' w] have both: "r' = r \<and> map redact tr' = map redact tr"
    unfolding run run' by (rule agree_eq)
  then have same: "r' = r" by (rule conjunct1)
  from both have "map redact tr' = map redact tr" by (rule conjunct2)
  then have out: "stdout tr' = stdout tr" by (rule stdout_redacted)
  note files = file_writes_of_run [OF run]
  have written: "file_writes tr \<noteq> []" if ok: "r = Inl (SystemExit 0)"
  proof -
    from success_after_loop [OF run [unfolded ok]] obtain u tok repos ks tr1 k s tr2 tr3 where
      steps: "main_precheck w [] = (Inr (u, tok, repos, ks), tr1)"
        "main_mint w u tr1 = (Inr (k, s), tr2)"
        "propagate w tok k s (targets repos) tr2 = (Inr (), tr3)"
        "main_retire w u ks tr3 = (Inl (SystemExit 0), tr)"
      by blast
    from precheck_cases [OF steps(1)]
    have tr1: "tr1 = [StsGetCallerIdentity, IamListAccessKeys u,
        Print (''Validated <2 keys exist (current count: '' @ str_nat (length ks)
                 @ ''), proceeding.'')]"
      by auto
    then have "calls is_IamCreateAccessKey tr1 = 0" "calls is_IamListAccessKeys tr1 = 1"
      by simp_all
    from mint_cases [OF steps(2) this] tr1 have "file_writes tr2 \<noteq> []" by auto
    moreover from propagate_footprint [OF steps(3)] obtain evs where "tr3 = tr2 @ evs"
      by blast
    moreover from retire_cases [OF steps(4)] obtain evs' where "tr = tr3 @ evs'"
      by auto
    ultimately show ?thesis by simp
  qed
  from same out files written show ?thesis
    unfolding run run' fst_conv snd_conv by blast
qed



text \<open>
  Claim C8, as stated, fails: in the scenario the run exits 0 and has appended the line
  \<^verbatim>\<open>secret_key_id=s3cr3t\<close>, holding the new secret value, to the output file.
\<close>

theorem secret_value_on_disk_counterexample:
  "create_access_key scenario 0 = Inr (''AKIA_NEW'', ''s3cr3t'')
   \<and> environ scenario ''GITHUB_OUTPUT'' = Some ''/tmp/out''
   \<and> fst (rotate_keys scenario) = Inl (SystemExit 0)
   \<and> FileWrite ''/tmp/out'' (''secret_key_id='' @ ''s3cr3t'') \<in> set (snd (rotate_keys scenario))"
proof -
  have c: "create_access_key scenario 0 = Inr (''AKIA_NEW'', ''s3cr3t'')"
    by (simp add: scenario_def)
  have e: "environ scenario ''GITHUB_OUTPUT'' = Some ''/tmp/out''"
    by (simp add: scenario_def)
  have r: "fst (rotate_keys scenario) = Inl (SystemExit 0)"
    by (simp add: scenario_run)
  have "FileWrite ''/tmp/out'' (''secret_key_id='' @ ''s3cr3t'') \<in> set (minted 1)"
    by (simp add: minted_def)
  then have "FileWrite ''/tmp/out'' (''secret_key_id='' @ ''s3cr3t'')
      \<in> set (snd (rotate_keys scenario))"
    by (simp add: scenario_run)
  with c e r show ?thesis by (intro conjI)
qed

theorem secret_value_flow_witness:
  "fst (rotate_keys scenario) = Inl (SystemExit 0)
   \<and> fst (rotate_keys (with_secret ''0ther'' scenario)) = Inl (SystemExit 0)
   \<and> stdout (snd (rotate_keys (with_secret ''0ther'' scenario)))
       = stdout (snd (rotate_keys scenario))
   \<and> file_writes (snd (rotate_keys scenario)) \<noteq> []"
proof -
  have ok: "fst (rotate_keys scenario) = Inl (SystemExit 0)"
    by (simp add: scenario_run)
  note t = secret_value_flow [of "''0ther''" scenario]
  from t [THEN conjunct1] ok
  have other: "fst (rotate_keys (with_secret ''0ther'' scenario)) = Inl (SystemExit 0)"
    by (simp only:)
  from ok other t [THEN conjunct2, THEN conjunct1]
    t [THEN conjunct2, THEN conjunct2, THEN conjunct2, THEN mp, OF ok]
  show ?thesis by (intro conjI)
qed

subsection \<open>The loop over the targets\<close>

text \<open>
  The targets lose the white space around them, also U+0085 and U+00A0, and keep the
  white space inside; an empty piece stays, as an empty target.
\<close>

lemma targets_strip_white_space:
  "targets (CHR 0x85 # CHR 0x09 # ''org/repo A'' @ [CHR 0xA0, CHR 0x20] @ '',, org'')
     = [''org/repo A'', [], ''org'']"
  by code_simp

text \<open>
  One target, from the answers it gets: when they are all good the target succeeds with
  exactly its events; otherwise it raises, right after the request that was let down.
\<close>

lemma fetched_Some:
  "fetched w i = Some (public_key, pub_key_id, pk) \<longleftrightarrow>
     (\<exists>resp d. requests_get w i = Inr resp \<and> status_code resp = 200 \<and> json resp = Some d
        \<and> map_of d ''key'' = Some public_key \<and> map_of d ''key_id'' = Some pub_key_id
        \<and> nacl_PublicKey w public_key = Inr pk)"
  by (auto simp: fetched_def split: sum.splits option.splits if_splits)

lemma get_pub_key_fetched:
  assumes "get_pub_key w t tok tr = (g, tr1)" and "calls is_HttpGet tr = i"
  shows "fetched w i =
     (case g of Inl x \<Rightarrow> None
      | Inr (public_key, pub_key_id) \<Rightarrow>
          (case nacl_PublicKey w public_key of
             Inl m \<Rightarrow> None | Inr pk \<Rightarrow> Some (public_key, pub_key_id, pk)))"
  using assms
  by (auto simp: get_pub_key_def fetched_def dict_getitem_def Let_def
        split: sum.splits option.splits if_splits)

lemma upload_secret_ok:
  assumes "upload_secret w t name c kid tok tr = (r, tr')" and "calls is_HttpPut tr = n"
  shows "upload_ok w n \<longrightarrow> r = Inr ()
           \<and> tr' = tr @ [HttpPut (secret_endpoint w t name)
                \<lparr>encrypted_value = c, key_id = kid, visibility = ''private''\<rparr> (''Bearer '' @ tok),
                Print (updated_line w name t)]"
    and "\<not> upload_ok w n \<longrightarrow> (\<exists>x. r = Inl (Raise x))
           \<and> tr' = tr @ [HttpPut (secret_endpoint w t name)
                \<lparr>encrypted_value = c, key_id = kid, visibility = ''private''\<rparr> (''Bearer '' @ tok)]"
  using assms
  by (auto simp: upload_secret_def upload_ok_def good_status_codes_def Let_def
        split: sum.splits if_splits)

lemma propagate_one_trace:
  assumes run: "propagate_one w tok a s t tr = (r, tr')"
    and g: "calls is_HttpGet tr = i" and p: "calls is_HttpPut tr = 2 * i"
    and e: "calls is_SealedBoxEncrypt tr = 2 * i"
  shows "target_ok w i \<longrightarrow> r = Inr () \<and> tr' = tr @ target_events w tok a s t i"
    and "\<not> target_ok w i \<longrightarrow>
      (\<exists>x evs. r = Inl (Raise x)
         \<and> tr' = tr @ HttpGet (pub_key_endpoint w t) (''Bearer '' @ tok) # evs
         \<and> (case fetched w i of
               None \<Rightarrow> evs = []
             | Some (public_key, pub_key_id, pk) \<Rightarrow>
                 evs = take 3 (sealed_uploads w tok a s t public_key pub_key_id pk (2 * i))
               \<or> evs = take 5 (sealed_uploads w tok a s t public_key pub_key_id pk (2 * i))))"
proof -
  let ?get = "HttpGet (pub_key_endpoint w t) (''Bearer '' @ tok)"
  obtain gr tr1 where get: "get_pub_key w t tok tr = (gr, tr1)"
    by (cases "get_pub_key w t tok tr") auto
  then have tr1: "tr1 = tr @ [?get]" by (rule get_pub_key_trace)
  note f = get_pub_key_fetched [OF get g]
  have "(target_ok w i \<longrightarrow> r = Inr () \<and> tr' = tr @ target_events w tok a s t i)
    \<and> (\<not> target_ok w i \<longrightarrow>
      (\<exists>x evs. r = Inl (Raise x)
         \<and> tr' = tr @ ?get # evs
         \<and> (case fetched w i of
               None \<Rightarrow> evs = []
             | Some (public_key, pub_key_id, pk) \<Rightarrow>
                 evs = take 3 (sealed_uploads w tok a s t public_key pub_key_id pk (2 * i))
               \<or> evs = take 5 (sealed_uploads w tok a s t public_key pub_key_id pk (2 * i)))))"
  proof (cases gr)
    case (Inl x)
    with f have none: "fetched w i = None" by simp
    from propagate_one_fetch_failed [OF run] get Inl tr1
    have "r = Inl x" "tr' = tr @ [?get]" by auto
    moreover from get Inl have "\<exists>e. x = Raise e"
      by (cases x) (auto dest: get_pub_key_exits)
    ultimately show ?thesis using none by (auto simp: target_ok_def)
  next
    case (Inr kp)
    obtain public_key kid where kp: "kp = (public_key, kid)" by (cases kp) auto
    show ?thesis
    proof (cases "nacl_PublicKey w public_key")
      case bad: (Inl m)
      with f Inr kp have none: "fetched w i = None" by simp
      from propagate_one_key_invalid [OF run _ bad] get Inr kp tr1
      have "r = Inl (Raise (ValueError m))" "tr' = tr @ [?get]" by auto
      with none show ?thesis by (auto simp: target_ok_def)
    next
      case good: (Inr pk)
      with f Inr kp have some: "fetched w i = Some (public_key, kid, pk)" by simp
      let ?c1 = "b64encode w (nacl_seal w (2 * i) pk a)"
      let ?c2 = "b64encode w (nacl_seal w (Suc (2 * i)) pk s)"
      let ?tr2 = "tr1 @ [SealedBoxEncrypt public_key, SealedBoxEncrypt public_key]"
      obtain u1 tr3 where up1: "upload_secret w t (access_key_name w) ?c1 kid tok ?tr2 = (u1, tr3)"
        by (cases "upload_secret w t (access_key_name w) ?c1 kid tok ?tr2") auto
      have n1: "calls is_HttpPut ?tr2 = 2 * i" by (simp add: tr1 p)
      note first = upload_secret_ok [OF up1 n1]
      have unfold: "propagate_one w tok a s t tr =
          and_then (u1, tr3) (\<lambda>_ tr''. upload_secret w t (secret_key_name w) ?c2 kid tok tr'')"
        using get Inr kp good up1 by (simp add: propagate_one_def encrypt_def tr1 e)
      show ?thesis
      proof (cases "upload_ok w (2 * i)")
        case False
        with first obtain x where "u1 = Inl (Raise x)"
          and tr3: "tr3 = ?tr2 @ [HttpPut (secret_endpoint w t (access_key_name w))
                \<lparr>encrypted_value = ?c1, key_id = kid, visibility = ''private''\<rparr> (''Bearer '' @ tok)]"
          by auto
        with unfold run have "r = Inl (Raise x)" "tr' = tr3" by simp_all
        with False some tr3 tr1 show ?thesis
          by (auto simp: target_ok_def sealed_uploads_def)
      next
        case ok1: True
        with first have u1: "u1 = Inr ()"
          and tr3: "tr3 = ?tr2 @ [HttpPut (secret_endpoint w t (access_key_name w))
                \<lparr>encrypted_value = ?c1, key_id = kid, visibility = ''private''\<rparr> (''Bearer '' @ tok),
                Print (updated_line w (access_key_name w) t)]"
          by auto
        from unfold run u1
        have up2: "upload_secret w t (secret_key_name w) ?c2 kid tok tr3 = (r, tr')" by simp
        have n2: "calls is_HttpPut tr3 = 2 * i + 1" by (simp add: tr3 tr1 p)
        note second = upload_secret_ok [OF up2 n2]
        show ?thesis
        proof (cases "upload_ok w (2 * i + 1)")
          case False
          with second some ok1 tr3 tr1 show ?thesis
            by (auto simp: target_ok_def sealed_uploads_def)
        next
          case True
          with second some ok1 tr3 tr1 show ?thesis
            by (auto simp: target_ok_def target_events_def sealed_uploads_def)
        qed
      qed
    qed
  qed
  then show "target_ok w i \<longrightarrow> r = Inr () \<and> tr' = tr @ target_events w tok a s t i"
    and "\<not> target_ok w i \<longrightarrow>
      (\<exists>x evs. r = Inl (Raise x)
         \<and> tr' = tr @ ?get # evs
         \<and> (case fetched w i of
               None \<Rightarrow> evs = []
             | Some (public_key, pub_key_id, pk) \<Rightarrow>
                 evs = take 3 (sealed_uploads w tok a s t public_key pub_key_id pk (2 * i))
               \<or> evs = take 5 (sealed_uploads w tok a s t public_key pub_key_id pk (2 * i))))"
    by blast+
qed

lemma target_events_calls:
  assumes "target_ok w i"
  shows "calls is_HttpGet (target_events w tok a s t i) = 1"
    "calls is_HttpPut (target_events w tok a s t i) = 2"
    "calls is_SealedBoxEncrypt (target_events w tok a s t i) = 2"
  using assms
  by (auto simp: target_ok_def target_events_def sealed_uploads_def)

lemma target_events_http:
  assumes "target_ok w i"
  shows "http_log (target_events w tok a s t i) = target_requests w t"
  using assms
  by (auto simp: target_ok_def target_events_def sealed_uploads_def target_requests_def)

lemma loop_events_append:
  "loop_events w tok a s (xs @ ys) i
     = loop_events w tok a s xs i @ loop_events w tok a s ys (i + length xs)"
  by (induction xs arbitrary: i) simp_all

lemma loop_events_http:
  assumes "\<forall>j < length ts. target_ok w (i + j)"
  shows "http_log (loop_events w tok a s ts i) = concat (map (target_requests w) ts)"
  using assms
proof (induction ts arbitrary: i)
  case Nil
  then show ?case by simp
next
  case (Cons t ts)
  from Cons.prems have "target_ok w i" by fastforce
  moreover from Cons.prems have "\<forall>j < length ts. target_ok w (Suc i + j)" by fastforce
  ultimately show ?case by (simp add: Cons.IH target_events_http)
qed

text \<open>
  The loop, by induction on the list: the targets before the first one whose answers are
  not all good contribute their events in order, and that one ends the loop.
\<close>

lemma propagate_trace:
  assumes "propagate w tok a s ts tr = (r, tr')"
    and "calls is_HttpGet tr = i" and "calls is_HttpPut tr = 2 * i"
    and "calls is_SealedBoxEncrypt tr = 2 * i"
  shows "((\<forall>j < length ts. target_ok w (i + j)) \<longrightarrow>
           r = Inr () \<and> tr' = tr @ loop_events w tok a s ts i)
    \<and> (\<forall>K < length ts. (\<forall>j < K. target_ok w (i + j)) \<longrightarrow> \<not> target_ok w (i + K) \<longrightarrow>
         (\<exists>x evs. r = Inl (Raise x)
            \<and> tr' = tr @ loop_events w tok a s (take K ts) i
                  @ HttpGet (pub_key_endpoint w (ts ! K)) (''Bearer '' @ tok) # evs
            \<and> (case fetched w (i + K) of
                  None \<Rightarrow> evs = []
                | Some (public_key, pub_key_id, pk) \<Rightarrow>
                    evs = take 3 (sealed_uploads w tok a s (ts ! K) public_key pub_key_id pk
                                    (2 * (i + K)))
                  \<or> evs = take 5 (sealed_uploads w tok a s (ts ! K) public_key pub_key_id pk
                                    (2 * (i + K))))))"
  using assms
proof (induction ts arbitrary: tr i)
  case Nil
  then show ?case by simp
next
  case (Cons t ts)
  obtain r1 tr1 where one: "propagate_one w tok a s t tr = (r1, tr1)"
    by (cases "propagate_one w tok a s t tr") auto
  note body = propagate_one_trace [OF one Cons.prems(2,3,4)]
  show ?case
  proof (cases "target_ok w i")
    case False
    with body obtain x evs where stop: "r1 = Inl (Raise x)"
      "tr1 = tr @ HttpGet (pub_key_endpoint w t) (''Bearer '' @ tok) # evs"
      "case fetched w i of
         None \<Rightarrow> evs = []
       | Some (public_key, pub_key_id, pk) \<Rightarrow>
           evs = take 3 (sealed_uploads w tok a s t public_key pub_key_id pk (2 * i))
         \<or> evs = take 5 (sealed_uploads w tok a s t public_key pub_key_id pk (2 * i))"
      by blast
    from Cons.prems(1) one stop(1) have res: "r = Inl (Raise x)" "tr' = tr1" by simp_all
    have all: "\<not> (\<forall>j < length (t # ts). target_ok w (i + j))"
      using False by (auto intro: exI [of _ 0])
    have first: "K = 0" if "\<forall>j < K. target_ok w (i + j)" for K
      using that False by (cases K) auto
    from all have A: "(\<forall>j < length (t # ts). target_ok w (i + j)) \<longrightarrow>
           r = Inr () \<and> tr' = tr @ loop_events w tok a s (t # ts) i"
      by blast
    have B: "\<forall>K < length (t # ts). (\<forall>j < K. target_ok w (i + j)) \<longrightarrow> \<not> target_ok w (i + K) \<longrightarrow>
         (\<exists>x evs. r = Inl (Raise x)
            \<and> tr' = tr @ loop_events w tok a s (take K (t # ts)) i
                  @ HttpGet (pub_key_endpoint w ((t # ts) ! K)) (''Bearer '' @ tok) # evs
            \<and> (case fetched w (i + K) of
                  None \<Rightarrow> evs = []
                | Some (public_key, pub_key_id, pk) \<Rightarrow>
                    evs = take 3 (sealed_uploads w tok a s ((t # ts) ! K) public_key pub_key_id pk
                                    (2 * (i + K)))
                  \<or> evs = take 5 (sealed_uploads w tok a s ((t # ts) ! K) public_key pub_key_id pk
                                    (2 * (i + K)))))"
    proof (intro allI impI)
      fix K
      assume "K < length (t # ts)" "\<forall>j < K. target_ok w (i + j)" "\<not> target_ok w (i + K)"
      with first have "K = 0" by simp
      with res stop show "\<exists>x evs. r = Inl (Raise x)
            \<and> tr' = tr @ loop_events w tok a s (take K (t # ts)) i
                  @ HttpGet (pub_key_endpoint w ((t # ts) ! K)) (''Bearer '' @ tok) # evs
            \<and> (case fetched w (i + K) of
                  None \<Rightarrow> evs = []
                | Some (public_key, pub_key_id, pk) \<Rightarrow>
                    evs = take 3 (sealed_uploads w tok a s ((t # ts) ! K) public_key pub_key_id pk
                                    (2 * (i + K)))
                  \<or> evs = take 5 (sealed_uploads w tok a s ((t # ts) ! K) public_key pub_key_id pk
                                    (2 * (i + K))))"
        by (auto split: option.splits)
    qed
    from A B show ?thesis by (rule conjI)
  next
    case True
    with body have r1: "r1 = Inr ()" and tr1: "tr1 = tr @ target_events w tok a s t i"
      by simp_all
    from Cons.prems(1) one r1 have rest: "propagate w tok a s ts tr1 = (r, tr')" by simp
    have counts: "calls is_HttpGet tr1 = Suc i" "calls is_HttpPut tr1 = 2 * Suc i"
      "calls is_SealedBoxEncrypt tr1 = 2 * Suc i"
      using Cons.prems(2,3,4) target_events_calls [OF True, of tok a s t] by (simp_all add: tr1)
    note IH = Cons.IH [OF rest counts]
    have A: "(\<forall>j < length (t # ts). target_ok w (i + j)) \<longrightarrow>
           r = Inr () \<and> tr' = tr @ loop_events w tok a s (t # ts) i"
    proof
      assume "\<forall>j < length (t # ts). target_ok w (i + j)"
      then have "\<forall>j < length ts. target_ok w (Suc i + j)" by fastforce
      with IH tr1 show "r = Inr () \<and> tr' = tr @ loop_events w tok a s (t # ts) i" by simp
    qed
    have B: "\<forall>K < length (t # ts). (\<forall>j < K. target_ok w (i + j)) \<longrightarrow> \<not> target_ok w (i + K) \<longrightarrow>
         (\<exists>x evs. r = Inl (Raise x)
            \<and> tr' = tr @ loop_events w tok a s (take K (t # ts)) i
                  @ HttpGet (pub_key_endpoint w ((t # ts) ! K)) (''Bearer '' @ tok) # evs
            \<and> (case fetched w (i + K) of
                  None \<Rightarrow> evs = []
                | Some (public_key, pub_key_id, pk) \<Rightarrow>
                    evs = take 3 (sealed_uploads w tok a s ((t # ts) ! K) public_key pub_key_id pk
                                    (2 * (i + K)))
                  \<or> evs = take 5 (sealed_uploads w tok a s ((t # ts) ! K) public_key pub_key_id pk
                                    (2 * (i + K)))))"
    proof (intro allI impI)
      fix K
      assume K: "K < length (t # ts)" "\<forall>j < K. target_ok w (i + j)" "\<not> target_ok w (i + K)"
      with True obtain K' where K': "K = Suc K'" by (cases K) auto
      from K K' have "K' < length ts" "\<forall>j < K'. target_ok w (Suc i + j)"
        "\<not> target_ok w (Suc i + K')"
        by fastforce+
      with IH obtain x evs where "r = Inl (Raise x)"
        "tr' = tr1 @ loop_events w tok a s (take K' ts) (Suc i)
                  @ HttpGet (pub_key_endpoint w (ts ! K')) (''Bearer '' @ tok) # evs"
        "case fetched w (Suc i + K') of
                  None \<Rightarrow> evs = []
                | Some (public_key, pub_key_id, pk) \<Rightarrow>
                    evs = take 3 (sealed_uploads w tok a s (ts ! K') public_key pub_key_id pk
                                    (2 * (Suc i + K')))
                  \<or> evs = take 5 (sealed_uploads w tok a s (ts ! K') public_key pub_key_id pk
                                    (2 * (Suc i + K')))"
        by blast
      with K' tr1 show "\<exists>x evs. r = Inl (Raise x)
            \<and> tr' = tr @ loop_events w tok a s (take K (t # ts)) i
                  @ HttpGet (pub_key_endpoint w ((t # ts) ! K)) (''Bearer '' @ tok) # evs
            \<and> (case fetched w (i + K) of
                  None \<Rightarrow> evs = []
                | Some (public_key, pub_key_id, pk) \<Rightarrow>
                    evs = take 3 (sealed_uploads w tok a s ((t # ts) ! K) public_key pub_key_id pk
                                    (2 * (i + K)))
                  \<or> evs = take 5 (sealed_uploads w tok a s ((t # ts) ! K) public_key pub_key_id pk
                                    (2 * (i + K))))"
        by (auto split: option.splits)
    qed
    from A B show ?thesis by (rule conjI)
  qed
qed

lemma precheck_inputs:
  assumes "main_precheck w [] = (Inr (u, tok, repos, ks), tr1)"
  shows "environ w ''PERSONAL_ACCESS_TOKEN'' = Some tok" "environ w ''OWNER_REPOSITORY'' = Some repos"
  using assms
  by (auto simp: main_precheck_def who_am_i_def boto3_client_def iam_list_access_keys_def
        environ_getitem_def and_then_def Let_def split: sum.splits if_splits option.splits)

lemma before_loop_seals:
  assumes "main_precheck w [] = (Inr (u, tok, repos, ks), tr1)" and "main_mint w u tr1 = (r, tr2)"
  shows "calls is_SealedBoxEncrypt tr2 = 0" "http_log tr2 = []"
proof -
  from precheck_cases [OF assms(1)]
  have tr1: "tr1 = [StsGetCallerIdentity, IamListAccessKeys u,
        Print (''Validated <2 keys exist (current count: '' @ str_nat (length ks)
                 @ ''), proceeding.'')]"
    by auto
  then have "calls is_IamCreateAccessKey tr1 = 0" "calls is_IamListAccessKeys tr1 = 1"
    by simp_all
  from mint_cases [OF assms(2) this] tr1
  show "calls is_SealedBoxEncrypt tr2 = 0" "http_log tr2 = []"
    by auto
qed

lemma retire_rest:
  assumes "main_retire w u ks tr3 = (r, tr)"
  shows "\<exists>rest. tr = tr3 @ rest \<and> calls is_HttpGet rest = 0 \<and> calls is_HttpPut rest = 0
           \<and> calls is_SealedBoxEncrypt rest = 0 \<and> http_log rest = []"
  using retire_cases [OF assms] by auto

text \<open>A run that got past the output file is the loop from there, then the retirement.\<close>

lemma run_through_loop:
  assumes pre: "main_precheck w [] = (Inr (u, tok, repos, ks), tr1)"
    and mint: "main_mint w u tr1 = (Inr (a, s), tr2)"
    and run: "rotate_keys w = (r, tr)"
  obtains (stopped) x where "propagate w tok a s (targets repos) tr2 = (Inl x, tr)" "r = Inl x"
  | (completed) tr3 rest where "propagate w tok a s (targets repos) tr2 = (Inr (), tr3)"
      "tr = tr3 @ rest" "calls is_HttpGet rest = 0" "calls is_HttpPut rest = 0"
      "calls is_SealedBoxEncrypt rest = 0" "http_log rest = []"
proof -
  obtain r3 tr3 where loop: "propagate w tok a s (targets repos) tr2 = (r3, tr3)"
    by (cases "propagate w tok a s (targets repos) tr2") auto
  have unfold: "rotate_keys w = and_then (r3, tr3) (\<lambda>_ tr. main_retire w u ks tr)"
    by (simp add: rotate_keys_def precheck_environ [OF pre] main_function_def pre mint loop)
  show ?thesis
  proof (cases r3)
    case (Inl x)
    with unfold run loop show ?thesis by (auto intro: stopped)
  next
    case (Inr v)
    with unfold run have "main_retire w u ks tr3 = (r, tr)" by simp
    from retire_rest [OF this] loop Inr show ?thesis by (auto intro: completed)
  qed
qed

lemma stopped_requests:
  assumes "case fetched w i of
             None \<Rightarrow> evs = []
           | Some (public_key, pub_key_id, pk) \<Rightarrow>
               evs = take 3 (sealed_uploads w tok a s t public_key pub_key_id pk n)
             \<or> evs = take 5 (sealed_uploads w tok a s t public_key pub_key_id pk n)"
  shows "prefix ((GET, pub_key_endpoint w t) # http_log evs) (target_requests w t)"
    and "calls is_HttpGet evs = 0"
  using assms
  by (auto simp: sealed_uploads_def target_requests_def split: option.splits)

lemma all_ok_take:
  assumes "\<forall>i < K. target_ok w i" and "K < length ts"
  shows "\<forall>j < length (take K ts). target_ok w (0 + j)"
  using assms by simp

text \<open>
  Claim C4. Take a run that passed the guard and created, verified and wrote out the new
  key. Its targets are the comma-separated pieces of \<^verbatim>\<open>OWNER_REPOSITORY\<close>, stripped,
  in the order written, and no HTTP request was made before the loop. When every
  target gets good answers, the HTTP requests of the whole run are those of the
  targets in that order: for each its public-key request, then the upload of the access
  key id, then the upload of the secret value. When target \<open>K\<close> is the first whose
  answers are not all good, the run ends with an exception and exit status 1, and its
  HTTP requests are the three requests of each target before \<open>K\<close>, in order, followed
  by one to three requests to target \<open>K\<close>: no later target receives a request.
\<close>

theorem targets_in_order:
  assumes pre: "main_precheck w [] = (Inr (u, github_token, owner_repository, ks), tr1)"
    and mint: "main_mint w u tr1 = (Inr (new_access_key, new_secret_key), tr2)"
    and run: "rotate_keys w = (r, tr)"
  shows "environ w ''OWNER_REPOSITORY'' = Some owner_repository
    \<and> targets owner_repository = map strip (split_on CHR '','' owner_repository)
    \<and> http_log tr2 = []
    \<and> ((\<forall>i < length (targets owner_repository). target_ok w i) \<longrightarrow>
          http_log tr = concat (map (target_requests w) (targets owner_repository)))
    \<and> (\<forall>K < length (targets owner_repository).
          (\<forall>i < K. target_ok w i) \<longrightarrow> \<not> target_ok w K \<longrightarrow>
          (\<exists>x p. r = Inl (Raise x) \<and> exit_status r = 1
             \<and> p \<noteq> [] \<and> prefix p (target_requests w (targets owner_repository ! K))
             \<and> http_log tr
                 = concat (map (target_requests w) (take K (targets owner_repository))) @ p))"
proof -
  let ?ts = "targets owner_repository"
  note zero = before_loop_calls(1,2) [OF pre mint] before_loop_seals [OF pre mint]
  have all: "http_log tr = concat (map (target_requests w) ?ts)"
    if ok: "\<forall>i < length ?ts. target_ok w i"
  proof -
    from ok have ok': "\<forall>j < length ?ts. target_ok w (0 + j)" by simp
    from pre mint run show ?thesis
    proof (cases rule: run_through_loop)
      case (stopped x)
      from propagate_trace [OF stopped(1), of 0] zero ok' show ?thesis by auto
    next
      case (completed tr3 rest)
      from propagate_trace [OF completed(1), of 0] zero ok'
      have "tr3 = tr2 @ loop_events w github_token new_access_key new_secret_key ?ts 0"
        by simp
      with completed(2,6) zero(4) loop_events_http [OF ok'] show ?thesis by simp
    qed
  qed
  have fail: "\<exists>x p. r = Inl (Raise x) \<and> exit_status r = 1
             \<and> p \<noteq> [] \<and> prefix p (target_requests w (?ts ! K))
             \<and> http_log tr = concat (map (target_requests w) (take K ?ts)) @ p"
    if K: "K < length ?ts" and before: "\<forall>i < K. target_ok w i" and here: "\<not> target_ok w K"
    for K
  proof -
    from before have before': "\<forall>j < K. target_ok w (0 + j)" by simp
    from here have here': "\<not> target_ok w (0 + K)" by simp
    have trace: "\<exists>x evs. r3 = Inl (Raise x)
        \<and> tr3 = tr2 @ loop_events w github_token new_access_key new_secret_key (take K ?ts) 0
              @ HttpGet (pub_key_endpoint w (?ts ! K)) (''Bearer '' @ github_token) # evs
        \<and> (case fetched w K of
              None \<Rightarrow> evs = []
            | Some (public_key, pub_key_id, pk) \<Rightarrow>
                evs = take 3 (sealed_uploads w github_token new_access_key new_secret_key
                                (?ts ! K) public_key pub_key_id pk (2 * K))
              \<or> evs = take 5 (sealed_uploads w github_token new_access_key new_secret_key
                                (?ts ! K) public_key pub_key_id pk (2 * K)))"
      if "propagate w github_token new_access_key new_secret_key ?ts tr2 = (r3, tr3)" for r3 tr3
      using propagate_trace [OF that, of 0, THEN conjunct2, rule_format, OF _ _ _ K before' [rule_format] here']
        zero by (auto split: option.splits)
    from pre mint run show ?thesis
    proof (cases rule: run_through_loop)
      case (stopped y)
      from trace [OF stopped(1)] obtain x evs where x: "y = Raise x"
        and tr: "tr = tr2 @ loop_events w github_token new_access_key new_secret_key (take K ?ts) 0
              @ HttpGet (pub_key_endpoint w (?ts ! K)) (''Bearer '' @ github_token) # evs"
        and evs: "case fetched w K of
              None \<Rightarrow> evs = []
            | Some (public_key, pub_key_id, pk) \<Rightarrow>
                evs = take 3 (sealed_uploads w github_token new_access_key new_secret_key
                                (?ts ! K) public_key pub_key_id pk (2 * K))
              \<or> evs = take 5 (sealed_uploads w github_token new_access_key new_secret_key
                                (?ts ! K) public_key pub_key_id pk (2 * K))"
        by auto
      let ?p = "(GET, pub_key_endpoint w (?ts ! K)) # http_log evs"
      from loop_events_http [OF all_ok_take [OF before K]]
      have "http_log (loop_events w github_token new_access_key new_secret_key (take K ?ts) 0)
          = concat (map (target_requests w) (take K ?ts))" .
      with tr zero(4) have "http_log tr = concat (map (target_requests w) (take K ?ts)) @ ?p"
        by simp
      moreover note stopped_requests(1) [OF evs]
      moreover from stopped(2) x have "r = Inl (Raise x)" "exit_status r = 1" by simp_all
      ultimately show ?thesis by blast
    next
      case (completed tr3 rest)
      from trace [OF completed(1)] show ?thesis by simp
    qed
  qed
  have split: "targets owner_repository = map strip (split_on CHR '','' owner_repository)"
    by (simp add: targets_def)
  from precheck_inputs(2) [OF pre] split zero(4) all fail show ?thesis
    by blast
qed

lemma three_targets_steps:
  "main_precheck three_targets [] =
     (Inr (''svc-bot'', ''ghp_t'', '' org/repoA,org/repoB ,  org/repoC'', [''AKIA_OLD'']),
      checked 1)"
  "main_mint three_targets ''svc-bot'' (checked 1) = (Inr (''AKIA_NEW'', ''s3cr3t''), minted 1)"
  "rotate_keys three_targets =
     (Inl (Raise (Exception (pub_key_failed 404 ''Not Found'' ''org/repoB'' ''ghp_t''))),
      minted 1 @ repoA_done
        @ [HttpGet ''https://api.github.com/repos/org/repoB/actions/secrets/public-key''
             ''Bearer ghp_t''])"
  by code_simp+

lemma three_targets_list:
  "targets '' org/repoA,org/repoB ,  org/repoC'' = [''org/repoA'', ''org/repoB'', ''org/repoC'']"
  by code_simp

lemma three_targets_answers: "target_ok three_targets 0" "\<not> target_ok three_targets 1"
  by code_simp+

lemma scenario_list: "targets ''org/repoA, org/repoB'' = [''org/repoA'', ''org/repoB'']"
  by code_simp

lemma scenario_answers: "target_ok scenario 0" "target_ok scenario 1"
  by code_simp+

lemma scenario_all_ok: "\<forall>i < length (targets ''org/repoA, org/repoB''). target_ok scenario i"
proof (intro allI impI)
  fix i
  assume "i < length (targets ''org/repoA, org/repoB'')"
  then have "i = 0 \<or> i = 1" by (auto simp: scenario_list)
  with scenario_answers show "target_ok scenario i" by auto
qed

theorem targets_in_order_witness:
  "main_precheck three_targets [] =
     (Inr (''svc-bot'', ''ghp_t'', '' org/repoA,org/repoB ,  org/repoC'', [''AKIA_OLD'']),
      checked 1)
   \<and> main_mint three_targets ''svc-bot'' (checked 1) = (Inr (''AKIA_NEW'', ''s3cr3t''), minted 1)
   \<and> rotate_keys three_targets =
       (Inl (Raise (Exception (pub_key_failed 404 ''Not Found'' ''org/repoB'' ''ghp_t''))),
        minted 1 @ repoA_done
          @ [HttpGet ''https://api.github.com/repos/org/repoB/actions/secrets/public-key''
               ''Bearer ghp_t''])
   \<and> targets '' org/repoA,org/repoB ,  org/repoC''
       = [''org/repoA'', ''org/repoB'', ''org/repoC'']
   \<and> target_ok three_targets 0 \<and> \<not> target_ok three_targets 1
   \<and> (\<exists>x p. (Inl (Raise (Exception (pub_key_failed 404 ''Not Found'' ''org/repoB'' ''ghp_t'')))
                 :: abort + unit) = Inl (Raise x)
          \<and> exit_status (Inl (Raise (Exception
                (pub_key_failed 404 ''Not Found'' ''org/repoB'' ''ghp_t''))) :: abort + unit) = 1
          \<and> p \<noteq> []
          \<and> prefix p (target_requests three_targets
                        (targets '' org/repoA,org/repoB ,  org/repoC'' ! 1))
          \<and> http_log (minted 1 @ repoA_done
               @ [HttpGet ''https://api.github.com/repos/org/repoB/actions/secrets/public-key''
                    ''Bearer ghp_t''])
             = concat (map (target_requests three_targets)
                        (take 1 (targets '' org/repoA,org/repoB ,  org/repoC''))) @ p)
   \<and> http_log ((minted 1 @ repoA_done @ repoB_done)
                 @ [IamDeleteAccessKey ''svc-bot'' ''AKIA_OLD''])
       = concat (map (target_requests scenario) (targets ''org/repoA, org/repoB''))"
proof -
  have lt: "1 < length (targets '' org/repoA,org/repoB ,  org/repoC'')"
    by (simp add: three_targets_list)
  have before: "\<forall>i < 1. target_ok three_targets i"
    using three_targets_answers(1) by simp
  note stop = targets_in_order [OF three_targets_steps,
      THEN conjunct2, THEN conjunct2, THEN conjunct2, THEN conjunct2,
      THEN spec [where x = 1], THEN mp, OF lt, THEN mp, OF before,
      THEN mp, OF three_targets_answers(2)]
  note fin = targets_in_order [OF scenario_steps(1,2) scenario_run,
      THEN conjunct2, THEN conjunct2, THEN conjunct2, THEN conjunct1,
      THEN mp, OF scenario_all_ok]
  from three_targets_steps three_targets_list three_targets_answers stop fin
  show ?thesis by (intro conjI)
qed


subsection \<open>One public key per target\<close>

lemma loop_events_calls:
  assumes "\<forall>j < length ts. target_ok w (i + j)"
  shows "calls is_HttpGet (loop_events w tok a s ts i) = length ts"
    "calls is_HttpPut (loop_events w tok a s ts i) = 2 * length ts"
    "calls is_SealedBoxEncrypt (loop_events w tok a s ts i) = 2 * length ts"
  using assms
proof (induction ts arbitrary: i)
  case Nil
  {
    case 1 show ?case by simp
  next
    case 2 show ?case by simp
  next
    case 3 show ?case by simp
  }
next
  case (Cons t ts)
  {
    case 1
    then have ok: "target_ok w i" and rest: "\<forall>j < length ts. target_ok w (Suc i + j)"
      by fastforce+
    from Cons.IH(1) [OF rest] target_events_calls(1) [OF ok, of tok a s t] show ?case by simp
  next
    case 2
    then have ok: "target_ok w i" and rest: "\<forall>j < length ts. target_ok w (Suc i + j)"
      by fastforce+
    from Cons.IH(2) [OF rest] target_events_calls(2) [OF ok, of tok a s t] show ?case by simp
  next
    case 3
    then have ok: "target_ok w i" and rest: "\<forall>j < length ts. target_ok w (Suc i + j)"
      by fastforce+
    from Cons.IH(3) [OF rest] target_events_calls(3) [OF ok, of tok a s t] show ?case by simp
  }
qed

lemma target_events_ok:
  assumes "target_ok w i"
  shows "\<exists>public_key pub_key_id pk. fetched w i = Some (public_key, pub_key_id, pk)
     \<and> target_events w tok a s t i
         = HttpGet (pub_key_endpoint w t) (''Bearer '' @ tok)
             # sealed_uploads w tok a s t public_key pub_key_id pk (2 * i)"
  using assms by (auto simp: target_ok_def target_events_def)

text \<open>
  Claim C10. Take a run that passed the guard and created, verified and wrote out the new
  key; before the loop it made no public-key request, no upload and no sealing. A target
  whose answers are all good contributes exactly these events: one public-key request,
  two sealings under the key of that request's answer, the upload of the sealed access
  key id and then the upload of the sealed secret value, both carrying the key id of
  that same answer. When all targets get good answers the run's trace is, after the
  events before the loop, these events for each target in order and then no further
  request or sealing, so there are as many public-key requests as targets and twice as
  many uploads. When target \<open>K\<close> is the first to be let down, the trace ends inside
  its events: its one public-key request, then nothing, or the two sealings and the first
  upload, or those and the second upload, all under the key and key id of its own answer.
\<close>

theorem one_public_key_per_target:
  assumes pre: "main_precheck w [] = (Inr (u, github_token, owner_repository, ks), tr1)"
    and mint: "main_mint w u tr1 = (Inr (new_access_key, new_secret_key), tr2)"
    and run: "rotate_keys w = (r, tr)"
  shows "calls is_HttpGet tr2 = 0 \<and> calls is_HttpPut tr2 = 0 \<and> calls is_SealedBoxEncrypt tr2 = 0
    \<and> (\<forall>i public_key pub_key_id pk.
          fetched w i = Some (public_key, pub_key_id, pk) \<longleftrightarrow>
            (\<exists>resp d. requests_get w i = Inr resp \<and> status_code resp = 200
               \<and> json resp = Some d \<and> map_of d ''key'' = Some public_key
               \<and> map_of d ''key_id'' = Some pub_key_id
               \<and> nacl_PublicKey w public_key = Inr pk))
    \<and> (\<forall>i repos. target_ok w i \<longrightarrow>
          (\<exists>public_key pub_key_id pk. fetched w i = Some (public_key, pub_key_id, pk)
             \<and> target_events w github_token new_access_key new_secret_key repos i
                 = HttpGet (pub_key_endpoint w repos) (''Bearer '' @ github_token)
                     # sealed_uploads w github_token new_access_key new_secret_key repos
                         public_key pub_key_id pk (2 * i)))
    \<and> ((\<forall>i < length (targets owner_repository). target_ok w i) \<longrightarrow>
          (\<exists>rest. tr = tr2 @ loop_events w github_token new_access_key new_secret_key
                              (targets owner_repository) 0 @ rest
             \<and> calls is_HttpGet rest = 0 \<and> calls is_HttpPut rest = 0
             \<and> calls is_SealedBoxEncrypt rest = 0)
          \<and> calls is_HttpGet tr = length (targets owner_repository)
          \<and> calls is_HttpPut tr = 2 * length (targets owner_repository))
    \<and> (\<forall>K < length (targets owner_repository).
          (\<forall>i < K. target_ok w i) \<longrightarrow> \<not> target_ok w K \<longrightarrow>
          (\<exists>evs. tr = tr2 @ loop_events w github_token new_access_key new_secret_key
                             (take K (targets owner_repository)) 0
                       @ HttpGet (pub_key_endpoint w (targets owner_repository ! K))
                           (''Bearer '' @ github_token) # evs
             \<and> (case fetched w K of
                   None \<Rightarrow> evs = []
                 | Some (public_key, pub_key_id, pk) \<Rightarrow>
                     evs = take 3 (sealed_uploads w github_token new_access_key new_secret_key
                                     (targets owner_repository ! K) public_key pub_key_id pk
                                     (2 * K))
                   \<or> evs = take 5 (sealed_uploads w github_token new_access_key new_secret_key
                                     (targets owner_repository ! K) public_key pub_key_id pk
                                     (2 * K)))
             \<and> calls is_HttpGet tr = Suc K))"
proof -
  let ?ts = "targets owner_repository"
  let ?loop = "loop_events w github_token new_access_key new_secret_key"
  note zero = before_loop_calls(1,2) [OF pre mint] before_loop_seals(1) [OF pre mint]
  have all: "(\<exists>rest. tr = tr2 @ ?loop ?ts 0 @ rest
             \<and> calls is_HttpGet rest = 0 \<and> calls is_HttpPut rest = 0
             \<and> calls is_SealedBoxEncrypt rest = 0)
          \<and> calls is_HttpGet tr = length ?ts \<and> calls is_HttpPut tr = 2 * length ?ts"
    if ok: "\<forall>i < length ?ts. target_ok w i"
  proof -
    from ok have ok': "\<forall>j < length ?ts. target_ok w (0 + j)" by simp
    from pre mint run show ?thesis
    proof (cases rule: run_through_loop)
      case (stopped x)
      from propagate_trace [OF stopped(1), of 0] zero ok' show ?thesis by auto
    next
      case (completed tr3 rest)
      from propagate_trace [OF completed(1), of 0] zero ok'
      have "tr3 = tr2 @ ?loop ?ts 0" by simp
      with completed(2-5) have tr: "tr = tr2 @ ?loop ?ts 0 @ rest"
        and rest: "calls is_HttpGet rest = 0" "calls is_HttpPut rest = 0"
          "calls is_SealedBoxEncrypt rest = 0"
        by simp_all
      from tr rest zero loop_events_calls(1,2) [OF ok']
      have "calls is_HttpGet tr = length ?ts" "calls is_HttpPut tr = 2 * length ?ts"
        by simp_all
      with tr rest show ?thesis by blast
    qed
  qed
  have fail: "\<exists>evs. tr = tr2 @ ?loop (take K ?ts) 0
                       @ HttpGet (pub_key_endpoint w (?ts ! K)) (''Bearer '' @ github_token) # evs
             \<and> (case fetched w K of
                   None \<Rightarrow> evs = []
                 | Some (public_key, pub_key_id, pk) \<Rightarrow>
                     evs = take 3 (sealed_uploads w github_token new_access_key new_secret_key
                                     (?ts ! K) public_key pub_key_id pk (2 * K))
                   \<or> evs = take 5 (sealed_uploads w github_token new_access_key new_secret_key
                                     (?ts ! K) public_key pub_key_id pk (2 * K)))
             \<and> calls is_HttpGet tr = Suc K"
    if K: "K < length ?ts" and before: "\<forall>i < K. target_ok w i" and here: "\<not> target_ok w K"
    for K
  proof -
    from before have before': "\<forall>j < K. target_ok w (0 + j)" by simp
    from here have here': "\<not> target_ok w (0 + K)" by simp
    have trace: "\<exists>x evs. r3 = Inl (Raise x)
        \<and> tr3 = tr2 @ ?loop (take K ?ts) 0
              @ HttpGet (pub_key_endpoint w (?ts ! K)) (''Bearer '' @ github_token) # evs
        \<and> (case fetched w K of
              None \<Rightarrow> evs = []
            | Some (public_key, pub_key_id, pk) \<Rightarrow>
                evs = take 3 (sealed_uploads w github_token new_access_key new_secret_key
                                (?ts ! K) public_key pub_key_id pk (2 * K))
              \<or> evs = take 5 (sealed_uploads w github_token new_access_key new_secret_key
                                (?ts ! K) public_key pub_key_id pk (2 * K)))"
      if "propagate w github_token new_access_key new_secret_key ?ts tr2 = (r3, tr3)" for r3 tr3
      using propagate_trace [OF that, of 0, THEN conjunct2, rule_format,
          OF _ _ _ K before' [rule_format] here']
        zero by (auto split: option.splits)
    from pre mint run show ?thesis
    proof (cases rule: run_through_loop)
      case (stopped y)
      from trace [OF stopped(1)] obtain evs where
        tr: "tr = tr2 @ ?loop (take K ?ts) 0
              @ HttpGet (pub_key_endpoint w (?ts ! K)) (''Bearer '' @ github_token) # evs"
        and evs: "case fetched w K of
              None \<Rightarrow> evs = []
            | Some (public_key, pub_key_id, pk) \<Rightarrow>
                evs = take 3 (sealed_uploads w github_token new_access_key new_secret_key
                                (?ts ! K) public_key pub_key_id pk (2 * K))
              \<or> evs = take 5 (sealed_uploads w github_token new_access_key new_secret_key
                                (?ts ! K) public_key pub_key_id pk (2 * K))"
        by auto
      from loop_events_calls(1) [OF all_ok_take [OF before K]] K
      have "calls is_HttpGet (?loop (take K ?ts) 0) = K" by simp
      with tr zero(1) stopped_requests(2) [OF evs] have "calls is_HttpGet tr = Suc K"
        by simp
      with tr evs show ?thesis by blast
    next
      case (completed tr3 rest)
      from trace [OF completed(1)] show ?thesis by simp
    qed
  qed
  have f: "\<forall>i public_key pub_key_id pk.
          fetched w i = Some (public_key, pub_key_id, pk) \<longleftrightarrow>
            (\<exists>resp d. requests_get w i = Inr resp \<and> status_code resp = 200
               \<and> json resp = Some d \<and> map_of d ''key'' = Some public_key
               \<and> map_of d ''key_id'' = Some pub_key_id
               \<and> nacl_PublicKey w public_key = Inr pk)"
    by (intro allI) (rule fetched_Some)
  have e: "\<forall>i repos. target_ok w i \<longrightarrow>
          (\<exists>public_key pub_key_id pk. fetched w i = Some (public_key, pub_key_id, pk)
             \<and> target_events w github_token new_access_key new_secret_key repos i
                 = HttpGet (pub_key_endpoint w repos) (''Bearer '' @ github_token)
                     # sealed_uploads w github_token new_access_key new_secret_key repos
                         public_key pub_key_id pk (2 * i))"
    by (intro allI impI) (rule target_events_ok)
  from zero f e all fail show ?thesis by blast
qed

lemma scenario_loop_events:
  "loop_events scenario ''ghp_t'' ''AKIA_NEW'' ''s3cr3t'' (targets ''org/repoA, org/repoB'') 0
     = repoA_done @ repoB_done"
  by code_simp

lemma upload_403_steps:
  "main_precheck upload_403 [] =
     (Inr (''svc-bot'', ''ghp_t'', ''org/repoA, org/repoB'', [''AKIA_OLD'']), checked 1)"
  "main_mint upload_403 ''svc-bot'' (checked 1) = (Inr (''AKIA_NEW'', ''s3cr3t''), minted 1)"
  by code_simp+

lemma upload_403_answers:
  "\<not> target_ok upload_403 0" "fetched upload_403 0 = Some (''pk0'', ''kid0'', ''pk0'')"
  by code_simp+

theorem one_public_key_per_target_witness:
  "main_precheck scenario [] =
     (Inr (''svc-bot'', ''ghp_t'', ''org/repoA, org/repoB'', [''AKIA_OLD'']), checked 1)
   \<and> main_mint scenario ''svc-bot'' (checked 1) = (Inr (''AKIA_NEW'', ''s3cr3t''), minted 1)
   \<and> rotate_keys scenario =
       (Inl (SystemExit 0),
        (minted 1 @ repoA_done @ repoB_done) @ [IamDeleteAccessKey ''svc-bot'' ''AKIA_OLD''])
   \<and> target_ok scenario 0 \<and> target_ok scenario 1
   \<and> loop_events scenario ''ghp_t'' ''AKIA_NEW'' ''s3cr3t''
        (targets ''org/repoA, org/repoB'') 0 = repoA_done @ repoB_done
   \<and> ((\<exists>rest. (minted 1 @ repoA_done @ repoB_done)
                  @ [IamDeleteAccessKey ''svc-bot'' ''AKIA_OLD'']
              = minted 1 @ loop_events scenario ''ghp_t'' ''AKIA_NEW'' ''s3cr3t''
                             (targets ''org/repoA, org/repoB'') 0 @ rest
            \<and> calls is_HttpGet rest = 0 \<and> calls is_HttpPut rest = 0
            \<and> calls is_SealedBoxEncrypt rest = 0)
        \<and> calls is_HttpGet ((minted 1 @ repoA_done @ repoB_done)
                               @ [IamDeleteAccessKey ''svc-bot'' ''AKIA_OLD''])
            = length (targets ''org/repoA, org/repoB'')
        \<and> calls is_HttpPut ((minted 1 @ repoA_done @ repoB_done)
                               @ [IamDeleteAccessKey ''svc-bot'' ''AKIA_OLD''])
            = 2 * length (targets ''org/repoA, org/repoB''))
   \<and> rotate_keys upload_403 =
       (Inl (Raise (Exception (upload_failed 403 ''Forbidden'' ''org/repoA'' ''ghp_t''))),
        minted 1 @ butlast repoA_done)
   \<and> \<not> target_ok upload_403 0
   \<and> (\<exists>evs. minted 1 @ butlast repoA_done
              = minted 1 @ loop_events upload_403 ''ghp_t'' ''AKIA_NEW'' ''s3cr3t''
                             (take 0 (targets ''org/repoA, org/repoB'')) 0
                  @ HttpGet (pub_key_endpoint upload_403 (targets ''org/repoA, org/repoB'' ! 0))
                      (''Bearer '' @ ''ghp_t'') # evs
          \<and> (case fetched upload_403 0 of
                None \<Rightarrow> evs = []
              | Some (public_key, pub_key_id, pk) \<Rightarrow>
                  evs = take 3 (sealed_uploads upload_403 ''ghp_t'' ''AKIA_NEW'' ''s3cr3t''
                                  (targets ''org/repoA, org/repoB'' ! 0) public_key pub_key_id pk
                                  (2 * 0))
                \<or> evs = take 5 (sealed_uploads upload_403 ''ghp_t'' ''AKIA_NEW'' ''s3cr3t''
                                  (targets ''org/repoA, org/repoB'' ! 0) public_key pub_key_id pk
                                  (2 * 0)))
          \<and> calls is_HttpGet (minted 1 @ butlast repoA_done) = Suc 0)"
proof -
  note all = one_public_key_per_target [OF scenario_steps(1,2) scenario_run,
      THEN conjunct2, THEN conjunct2, THEN conjunct2, THEN conjunct2, THEN conjunct2,
      THEN conjunct1, THEN mp, OF scenario_all_ok]
  have lt: "0 < length (targets ''org/repoA, org/repoB'')"
    by (simp add: scenario_list)
  have before: "\<forall>i < 0. target_ok upload_403 i"
    by simp
  note stop = one_public_key_per_target [OF upload_403_steps upload_403_run,
      THEN conjunct2, THEN conjunct2, THEN conjunct2, THEN conjunct2, THEN conjunct2,
      THEN conjunct2, THEN spec [where x = 0], THEN mp, OF lt, THEN mp, OF before,
      THEN mp, OF upload_403_answers(1)]
  from scenario_steps(1,2) scenario_run scenario_answers scenario_loop_events
    all [THEN conjunct1] all [THEN conjunct2, THEN conjunct1] all [THEN conjunct2, THEN conjunct2]
    upload_403_run upload_403_answers(1) stop
  show ?thesis by (intro conjI)
qed

end
